theory Spec2Isabelle
  imports Main "HOL-Library.Char_ord" "HOL-Library.List_Lexorder" "HOL-Library.Multiset"
begin

section \<open>Strings\<close>

text \<open>
  The sidebar helper (\<^verbatim>\<open>.vitepress/helpers/sidebar.ts\<close>) works on JavaScript strings.
  They are modelled as \<^typ>\<open>string\<close>, one \<^typ>\<open>char\<close> per code unit, which covers the
  ASCII range exactly. The regular expressions of the source use \<^verbatim>\<open>\w\<close>, \<^verbatim>\<open>\d\<close>
  and the flag \<^verbatim>\<open>i\<close> without the flag \<^verbatim>\<open>u\<close>, so they only ever classify or fold
  ASCII characters, and \<^verbatim>\<open>toLowerCase\<close> is only used to test for the suffix \<^verbatim>\<open>.md\<close>,
  which no character outside ASCII can produce. A character outside ASCII is neither a
  word character nor a digit nor, in this model, white space. Paths are POSIX paths.
\<close>

definition lowerLetters :: string where
  "lowerLetters = ''abcdefghijklmnopqrstuvwxyz''"

definition upperLetters :: string where
  "upperLetters = ''ABCDEFGHIJKLMNOPQRSTUVWXYZ''"

definition digitChars :: string where
  "digitChars = ''0123456789''"

definition toUpperChar :: "char \<Rightarrow> char" where
  "toUpperChar c = (case map_of (zip lowerLetters upperLetters) c of Some u \<Rightarrow> u | None \<Rightarrow> c)"

definition toLowerChar :: "char \<Rightarrow> char" where
  "toLowerChar c = (case map_of (zip upperLetters lowerLetters) c of Some l \<Rightarrow> l | None \<Rightarrow> c)"

definition toUpperCase :: "string \<Rightarrow> string" where
  "toUpperCase s = map toUpperChar s"

definition toLowerCase :: "string \<Rightarrow> string" where
  "toLowerCase s = map toLowerChar s"

text \<open>The class \<^verbatim>\<open>\d\<close>.\<close>

definition isDigit :: "char \<Rightarrow> bool" where
  "isDigit c = (c \<in> set digitChars)"

text \<open>The class \<^verbatim>\<open>\w\<close>: letters, digits and the underscore.\<close>

definition isWordChar :: "char \<Rightarrow> bool" where
  "isWordChar c = (c \<in> set (lowerLetters @ upperLetters @ digitChars @ ''_''))"

text \<open>The class \<^verbatim>\<open>[_-]\<close> (also written \<^verbatim>\<open>[-_]\<close>) of the source.\<close>

definition isSeparator :: "char \<Rightarrow> bool" where
  "isSeparator c = (c = CHR ''_'' \<or> c = CHR ''-'')"

text \<open>White space as \<^verbatim>\<open>String.prototype.trim\<close> sees it in ASCII: TAB, LF, VT, FF, CR, SP.\<close>

definition isSpace :: "char \<Rightarrow> bool" where
  "isSpace c = (c \<in> set [CHR 0x09, CHR 0x0A, CHR 0x0B, CHR 0x0C, CHR 0x0D, CHR '' ''])"

definition trim :: "string \<Rightarrow> string" where
  "trim s = rev (dropWhile isSpace (rev (dropWhile isSpace s)))"

definition startsWith :: "string \<Rightarrow> string \<Rightarrow> bool" where
  "startsWith s p = (take (length p) s = p)"

definition endsWith :: "string \<Rightarrow> string \<Rightarrow> bool" where
  "endsWith s p = (length p \<le> length s \<and> drop (length s - length p) s = p)"

text \<open>
  A literal matched under the flag \<^verbatim>\<open>i\<close> between \<^verbatim>\<open>^\<close> and \<^verbatim>\<open>$\<close>: pattern and input
  characters are compared after canonicalisation, which for ASCII is \<^verbatim>\<open>toUpperCase\<close>.
\<close>

definition matchesIgnoreCase :: "string \<Rightarrow> string \<Rightarrow> bool" where
  "matchesIgnoreCase lit s = (toUpperCase s = toUpperCase lit)"

section \<open>\<^verbatim>\<open>cleanName\<close>\<close>

text \<open>
  \<^verbatim>\<open>name.replace(/\.\w+$/, '')\<close>: the leftmost position at which a dot is followed by one
  or more word characters up to the end of the string; the match is removed.
\<close>

fun removeExtension :: "string \<Rightarrow> string" where
  "removeExtension [] = []"
| "removeExtension (c # cs) =
     (if c = CHR ''.'' \<and> cs \<noteq> [] \<and> list_all isWordChar cs then []
      else c # removeExtension cs)"

text \<open>
  \<^verbatim>\<open>cleaned.replace(/^(\d+[_-]|[_-])/, '')\<close>: at the start of the string, a run of digits
  followed by a separator (the greedy run is the only one a separator can follow), or
  else a single separator.
\<close>

definition removeOrderingPrefix :: "string \<Rightarrow> string" where
  "removeOrderingPrefix s =
     (case dropWhile isDigit s of
        c # r \<Rightarrow>
          if takeWhile isDigit s \<noteq> [] \<and> isSeparator c then r
          else (case s of d # t \<Rightarrow> if isSeparator d then t else s | [] \<Rightarrow> s)
      | [] \<Rightarrow> s)"

text \<open>\<^verbatim>\<open>cleaned.replace(/[-_]/g, ' ')\<close>.\<close>

definition replaceSeparators :: "string \<Rightarrow> string" where
  "replaceSeparators s = map (\<lambda>c. if isSeparator c then CHR '' '' else c) s"

text \<open>
  \<^verbatim>\<open>cleaned.replace(/\b\w/g, char => char.toUpperCase())\<close>: a word character that follows
  the start of the string or a character that is not a word character is put in upper
  case. The flag says whether the previous character was a word character.
\<close>

fun titleCase :: "bool \<Rightarrow> string \<Rightarrow> string" where
  "titleCase prev [] = []"
| "titleCase prev (c # cs) =
     (if isWordChar c \<and> \<not> prev then toUpperChar c else c) # titleCase (isWordChar c) cs"

definition cleanName :: "string \<Rightarrow> string" where
  "cleanName name =
     (let cleaned = removeExtension name;
          cleaned = removeOrderingPrefix cleaned;
          cleaned = replaceSeparators cleaned;
          cleaned = titleCase False cleaned
      in if trim cleaned = [] then name else trim cleaned)"

section \<open>\<^verbatim>\<open>getFileLink\<close>\<close>

text \<open>
  \<^verbatim>\<open>path.extname\<close> of Node.js (POSIX flavour) scans the path from its last character to
  its first, keeping five variables. \<open>extnameLoop p n s\<close> runs the iterations for the
  indices \<open>n - 1\<close> down to \<open>0\<close>; the \<^verbatim>\<open>break\<close> of the source ends the recursion.
\<close>

record extnameState =
  startDot :: int
  startPart :: int
  endPos :: int
  matchedSlash :: bool
  preDotState :: int

fun extnameLoop :: "string \<Rightarrow> nat \<Rightarrow> extnameState \<Rightarrow> extnameState" where
  "extnameLoop p 0 s = s"
| "extnameLoop p (Suc i) s =
     (if p ! i = CHR ''/'' then
        (if \<not> matchedSlash s then s\<lparr>startPart := int i + 1\<rparr>
         else extnameLoop p i s)
      else
        (let s1 = (if endPos s = - 1 then s\<lparr>endPos := int i + 1, matchedSlash := False\<rparr> else s);
             s2 = (if p ! i = CHR ''.'' then
                     (if startDot s1 = - 1 then s1\<lparr>startDot := int i\<rparr>
                      else if preDotState s1 \<noteq> 1 then s1\<lparr>preDotState := 1\<rparr>
                      else s1)
                   else if startDot s1 \<noteq> - 1 then s1\<lparr>preDotState := - 1\<rparr>
                   else s1)
         in extnameLoop p i s2))"

definition extname :: "string \<Rightarrow> string" where
  "extname p =
     (let s = extnameLoop p (length p)
                \<lparr>startDot = - 1, startPart = 0, endPos = - 1, matchedSlash = True, preDotState = 0\<rparr>
      in if startDot s = - 1 \<or> endPos s = - 1 \<or> preDotState s = 0 \<or>
            (preDotState s = 1 \<and> startDot s = endPos s - 1 \<and> startDot s = startPart s + 1)
         then []
         else drop (nat (startDot s)) (take (nat (endPos s)) p))"

text \<open>The constant \<^verbatim>\<open>contentBaseUrl\<close>.\<close>

definition contentBaseUrl :: string where
  "contentBaseUrl = ''/''"

text \<open>\<^verbatim>\<open>/^(index|readme)$/i.test(s)\<close>.\<close>

definition isIndexStem :: "string \<Rightarrow> bool" where
  "isIndexStem s = (matchesIgnoreCase ''index'' s \<or> matchesIgnoreCase ''readme'' s)"

definition fileNameWithoutExtension :: "string \<Rightarrow> string" where
  "fileNameWithoutExtension filePath = take (length filePath - length (extname filePath)) filePath"

definition getFileLink :: "string \<Rightarrow> string \<Rightarrow> string" where
  "getFileLink filePath baseUrl =
     (if isIndexStem (fileNameWithoutExtension filePath) then
        (if baseUrl = contentBaseUrl @ ''index/'' then contentBaseUrl else baseUrl)
      else baseUrl @ fileNameWithoutExtension filePath)"

section \<open>The file system, as the helper reads it\<close>

text \<open>
  The helper reads the content tree through \<^verbatim>\<open>fs.existsSync\<close>, \<^verbatim>\<open>fs.statSync\<close>,
  \<^verbatim>\<open>fs.readdirSync\<close> and \<^verbatim>\<open>fs.readFileSync\<close>, and parses every markdown file with
  \<^verbatim>\<open>gray-matter\<close>. A path of the source is modelled by the node it leads to;
  \<^verbatim>\<open>path.join(dirPath, entry)\<close> is the node stored under the name \<open>entry\<close>.
  Of the parsed front matter only \<^verbatim>\<open>title\<close> and \<^verbatim>\<open>tags\<close> are read. The tree does not change
  during a run, and \<^verbatim>\<open>existsSync\<close> holds of exactly the paths that \<^verbatim>\<open>statSync\<close> can stat.
  What the source writes to the console is modelled apart, in the section on the console.
\<close>

datatype tagsValue =
    TagsAbsent
  | TagsString string
  | TagsArray "string list"
  | TagsOther

text \<open>
  \<open>title\<close> is \<open>Some s\<close> when \<^verbatim>\<open>typeof frontmatter.title === 'string'\<close>. An element of
  \<open>TagsArray\<close> is the value \<^verbatim>\<open>String(t)\<close> of the array's element; \<open>TagsOther\<close> is any
  value that is neither a string nor an array.
\<close>

record frontmatter =
  title :: "string option"
  tags :: tagsValue

datatype fsnode =
    NoEntry
  | Special
  | File "frontmatter option"
  | DirUnreadable
  | Dir "(string \<times> fsnode) list"

text \<open>
  \<open>NoEntry\<close>: nothing can be stat'ed under the path (it does not exist, or it is a
  dangling link). \<open>Special\<close>: neither a directory nor a regular file. \<open>File None\<close>: a
  regular file that \<^verbatim>\<open>readFileSync\<close> cannot read or \<^verbatim>\<open>matter\<close> cannot parse.
  \<open>DirUnreadable\<close>: a directory that \<^verbatim>\<open>readdirSync\<close> cannot list. \<open>Dir es\<close>: a
  directory, with its entries in the order \<^verbatim>\<open>readdirSync\<close> returns them.
\<close>

datatype exn = FsError

datatype stats = IsDirectory | IsFile | IsOther

fun existsSync :: "fsnode \<Rightarrow> bool" where
  "existsSync NoEntry = False"
| "existsSync _ = True"

fun statSync :: "fsnode \<Rightarrow> exn + stats" where
  "statSync NoEntry = Inl FsError"
| "statSync Special = Inr IsOther"
| "statSync (File _) = Inr IsFile"
| "statSync DirUnreadable = Inr IsDirectory"
| "statSync (Dir _) = Inr IsDirectory"

fun readdirSync :: "fsnode \<Rightarrow> exn + (string \<times> fsnode) list" where
  "readdirSync (Dir es) = Inr es"
| "readdirSync _ = Inl FsError"

text \<open>\<^verbatim>\<open>matter(fs.readFileSync(fullPath, 'utf-8')).data\<close>.\<close>

fun readFrontmatter :: "fsnode \<Rightarrow> exn + frontmatter" where
  "readFrontmatter (File (Some fm)) = Inr fm"
| "readFrontmatter _ = Inl FsError"

section \<open>Sorting and iteration\<close>

text \<open>
  \<^verbatim>\<open>Array.prototype.sort\<close> with a comparison function. For a comparison function that
  is consistent on the elements of the array the language fixes the result: the stable
  sort. \<open>jsSort\<close> is the stable insertion sort, which is that result whenever the
  comparison is consistent. For any other comparison function the language leaves the
  order to the engine, and fixes only that the result is a permutation of the array;
  of \<open>jsSort\<close> only the elements, not their order, are then those of the source.
\<close>

fun insertSorted :: "('a \<Rightarrow> 'a \<Rightarrow> int) \<Rightarrow> 'a \<Rightarrow> 'a list \<Rightarrow> 'a list" where
  "insertSorted cmp x [] = [x]"
| "insertSorted cmp x (y # ys) =
     (if cmp x y \<le> 0 then x # y # ys else y # insertSorted cmp x ys)"

definition jsSort :: "('a \<Rightarrow> 'a \<Rightarrow> int) \<Rightarrow> 'a list \<Rightarrow> 'a list" where
  "jsSort cmp xs = foldr (insertSorted cmp) xs []"

text \<open>
  \<^verbatim>\<open>xs.forEach(f)\<close> inside a \<^verbatim>\<open>try\<close> block, over a state that the callback updates. The
  callback returns the new state, or the exception it throws together with the state
  at that moment; the first exception ends the iteration.
\<close>

fun forEachTry :: "('a \<Rightarrow> 's \<Rightarrow> (exn \<times> 's) + 's) \<Rightarrow> 'a list \<Rightarrow> 's \<Rightarrow> (exn \<times> 's) + 's" where
  "forEachTry f [] s = Inr s"
| "forEachTry f (x # xs) s =
     (case f x s of Inl (e, s') \<Rightarrow> Inl (e, s') | Inr s' \<Rightarrow> forEachTry f xs s')"

lemma forEachTry_cong [fundef_cong]:
  assumes "xs = ys" "s = t" "\<And>x u. x \<in> set ys \<Longrightarrow> f x u = g x u"
  shows "forEachTry f xs s = forEachTry g ys t"
  unfolding assms(1,2) using assms(3)
  by (induction ys arbitrary: t) (auto split: sum.splits)

lemma set_insertSorted: "set (insertSorted cmp x xs) = insert x (set xs)"
  by (induction xs) auto

lemma set_jsSort: "set (jsSort cmp xs) = set xs"
  unfolding jsSort_def by (induction xs) (auto simp: set_insertSorted)

section \<open>The navigation model\<close>

text \<open>
  A \<^verbatim>\<open>DefaultTheme.SidebarItem\<close> as the helper builds it: \<open>Leaf text link\<close> is
  \<^verbatim>\<open>{ text, link }\<close> and \<open>Group text items collapsed\<close> is \<^verbatim>\<open>{ text, items, collapsed }\<close>.
\<close>

datatype SidebarItem =
    Leaf string string
  | Group string "SidebarItem list" bool

fun itemText :: "SidebarItem \<Rightarrow> string" where
  "itemText (Leaf t l) = t"
| "itemText (Group t its c) = t"

fun itemLink :: "SidebarItem \<Rightarrow> string option" where
  "itemLink (Leaf t l) = Some l"
| "itemLink (Group t its c) = None"

fun itemItems :: "SidebarItem \<Rightarrow> SidebarItem list option" where
  "itemItems (Leaf t l) = None"
| "itemItems (Group t its c) = Some its"

section \<open>\<^verbatim>\<open>generateSidebarItems\<close>\<close>

text \<open>\<^verbatim>\<open>/^(index|readme)\.md$/i.test(a)\<close>.\<close>

definition isIndexEntry :: "string \<Rightarrow> bool" where
  "isIndexEntry a = (matchesIgnoreCase ''index.md'' a \<or> matchesIgnoreCase ''readme.md'' a)"

text \<open>
  The comparison function of \<^verbatim>\<open>entries.sort\<close>. The parameter \<open>lc\<close> is
  \<^verbatim>\<open>String.prototype.localeCompare\<close>, which depends on the host's collation.
\<close>

definition entryCompare ::
  "(string \<Rightarrow> string \<Rightarrow> int) \<Rightarrow> string \<times> fsnode \<Rightarrow> string \<times> fsnode \<Rightarrow> int" where
  "entryCompare lc ea eb =
     (let a = fst ea; b = fst eb; isIndexA = isIndexEntry a; isIndexB = isIndexEntry b in
      if isIndexA \<noteq> isIndexB then (if isIndexA then - 1 else 1)
      else
        (case (statSync (snd ea), statSync (snd eb)) of
           (Inr statA, Inr statB) \<Rightarrow>
             (let isDirA = (statA = IsDirectory); isDirB = (statB = IsDirectory) in
              if isDirA \<noteq> isDirB then (if isDirA then - 1 else 1) else lc a b)
         | _ \<Rightarrow> lc a b))"

definition withTrailingSlash :: "string \<Rightarrow> string" where
  "withTrailingSlash baseUrl = (if endsWith baseUrl ''/'' then baseUrl else baseUrl @ ''/'')"

text \<open>
  The display text of a markdown file: the trimmed front-matter title when it is a
  string that is not blank, the cleaned file name otherwise.
\<close>

definition titleOrCleanName :: "frontmatter \<Rightarrow> string \<Rightarrow> string" where
  "titleOrCleanName fm entry =
     (case title fm of
        Some t \<Rightarrow> if trim t \<noteq> [] then trim t else cleanName entry
      | None \<Rightarrow> cleanName entry)"

function generateSidebarItems ::
  "(string \<Rightarrow> string \<Rightarrow> int) \<Rightarrow> fsnode \<Rightarrow> string \<Rightarrow> exn + SidebarItem list" where
  "generateSidebarItems lc dirPath baseUrl =
     (if \<not> existsSync dirPath then Inr []
      else case statSync dirPath of
        Inl e \<Rightarrow> Inl e
      | Inr st \<Rightarrow>
          if st \<noteq> IsDirectory then Inr []
          else
            (case readdirSync dirPath of
               Inl e \<Rightarrow> Inr []
             | Inr entries \<Rightarrow>
                 (case forEachTry
                    (\<lambda>en items.
                       if startsWith (fst en) ''.'' then Inr items
                       else case statSync (snd en) of
                         Inl e \<Rightarrow> Inr items
                       | Inr stats \<Rightarrow>
                           if stats = IsDirectory then
                             (case generateSidebarItems lc (snd en)
                                     (withTrailingSlash baseUrl @ fst en @ ''/'') of
                                Inl e \<Rightarrow> Inl (e, items)
                              | Inr subItems \<Rightarrow>
                                  if subItems \<noteq> []
                                  then Inr (items @ [Group (cleanName (fst en)) subItems True])
                                  else Inr items)
                           else if stats = IsFile \<and> endsWith (toLowerCase (fst en)) ''.md'' then
                             Inr (items @
                               [Leaf (case readFrontmatter (snd en) of
                                        Inl e \<Rightarrow> cleanName (fst en)
                                      | Inr fm \<Rightarrow> titleOrCleanName fm (fst en))
                                     (getFileLink (fst en) (withTrailingSlash baseUrl))])
                           else Inr items)
                    (jsSort (entryCompare lc) entries) [] of
                    Inl (e, items) \<Rightarrow> Inr items
                  | Inr items \<Rightarrow> Inr items)))"
  by pat_completeness auto
termination
proof (relation "measure (\<lambda>(lc, dirPath, baseUrl). size dirPath)")
  show "wf (measure (\<lambda>(lc, dirPath, baseUrl). size dirPath))" by simp
next
  fix lc :: "string \<Rightarrow> string \<Rightarrow> int" and dirPath baseUrl
    and entries :: "(string \<times> fsnode) list" and en :: "string \<times> fsnode"
  assume rd: "readdirSync dirPath = Inr entries"
    and mem: "en \<in> set (jsSort (entryCompare lc) entries)"
  from rd have d: "dirPath = Dir entries" by (cases dirPath) auto
  from mem have "en \<in> set entries" by (simp add: set_jsSort)
  then have "size (snd en) < Suc (size_list (size_prod (\<lambda>x. 0) size) entries)"
    by (induction entries) (auto simp: less_Suc_eq)
  then show "((lc, snd en, withTrailingSlash baseUrl @ fst en @ ''/''), lc, dirPath, baseUrl)
        \<in> measure (\<lambda>(lc, dirPath, baseUrl). size dirPath)"
    by (simp add: d)
qed

declare generateSidebarItems.simps [simp del]

section \<open>\<^verbatim>\<open>scanFilesForTags\<close>\<close>

text \<open>
  \<^verbatim>\<open>TagPageInfo\<close>. The field \<open>label\<close> is the field \<^verbatim>\<open>text\<close> of the source (a keyword of
  the theory language).
\<close>

record TagPageInfo =
  link :: string
  label :: string
  relativePath :: string

text \<open>
  \<^verbatim>\<open>Map<string, TagPageInfo[]>\<close>: a JavaScript map iterates its keys in insertion order,
  so the map is a list of pairs with distinct keys, a new key going to the end.
\<close>

type_synonym tagsMap = "(string \<times> TagPageInfo list) list"

definition mapHas :: "tagsMap \<Rightarrow> string \<Rightarrow> bool" where
  "mapHas m k = (map_of m k \<noteq> None)"

definition mapGet :: "tagsMap \<Rightarrow> string \<Rightarrow> TagPageInfo list" where
  "mapGet m k = (case map_of m k of Some v \<Rightarrow> v | None \<Rightarrow> [])"

fun mapSet :: "tagsMap \<Rightarrow> string \<Rightarrow> TagPageInfo list \<Rightarrow> tagsMap" where
  "mapSet [] k v = [(k, v)]"
| "mapSet ((k', v') # m) k v = (if k' = k then (k', v) # m else (k', v') # mapSet m k v)"

text \<open>\<^verbatim>\<open>s.split(d)\<close> for a separator of one character.\<close>

fun splitOn :: "char \<Rightarrow> string \<Rightarrow> string list" where
  "splitOn d [] = [[]]"
| "splitOn d (c # cs) =
     (if c = d then [] # splitOn d cs
      else (case splitOn d cs of w # ws \<Rightarrow> (c # w) # ws | [] \<Rightarrow> [[c]]))"

text \<open>The list \<^verbatim>\<open>fileTags\<close> of a file's front matter.\<close>

definition fileTagsOf :: "frontmatter \<Rightarrow> string list" where
  "fileTagsOf fm =
     (case tags fm of
        TagsString s \<Rightarrow>
          if s = [] then []
          else filter (\<lambda>t. t \<noteq> []) (map trim (splitOn CHR '','' s))
      | TagsArray ts \<Rightarrow> filter (\<lambda>t. t \<noteq> []) (map trim ts)
      | _ \<Rightarrow> [])"

text \<open>The body of \<^verbatim>\<open>fileTags.forEach\<close>: one tag of one page.\<close>

definition addTagPage :: "TagPageInfo \<Rightarrow> string \<Rightarrow> tagsMap \<Rightarrow> tagsMap" where
  "addTagPage page tag tagsMap =
     (let tagName = trim tag;
          tagsMap = (if \<not> mapHas tagsMap tagName then mapSet tagsMap tagName [] else tagsMap);
          tagPages = mapGet tagsMap tagName
      in if \<not> list_ex (\<lambda>item. link item = link page) tagPages
         then mapSet tagsMap tagName (tagPages @ [page])
         else tagsMap)"

text \<open>
  \<^verbatim>\<open>path.relative(scanRoot, fullPath).replace(/\\/g, '/')\<close>: \<open>rel\<close> holds the names of the
  directories from the scan root down to the file's directory.
\<close>

definition joinPath :: "string list \<Rightarrow> string" where
  "joinPath segs = (case segs of [] \<Rightarrow> [] | s # ss \<Rightarrow> foldl (\<lambda>acc x. acc @ ''/'' @ x) s ss)"

definition relativePathOf :: "string list \<Rightarrow> string \<Rightarrow> string" where
  "relativePathOf rel entry =
     map (\<lambda>c. if c = CHR 0x5C then CHR ''/'' else c) (joinPath (rel @ [entry]))"

text \<open>What the scan does with a markdown file whose front matter was parsed.\<close>

definition addFileTags :: "frontmatter \<Rightarrow> string \<Rightarrow> string \<Rightarrow> string list \<Rightarrow> tagsMap \<Rightarrow> tagsMap" where
  "addFileTags fm entry baseUrl rel tagsMap =
     (let fileTags = fileTagsOf fm in
      if fileTags \<noteq> [] then
        fold (addTagPage \<lparr>link = getFileLink entry baseUrl,
                          label = titleOrCleanName fm entry,
                          relativePath = relativePathOf rel entry\<rparr>) fileTags tagsMap
      else tagsMap)"

function scanFilesForTags ::
  "fsnode \<Rightarrow> string \<Rightarrow> tagsMap \<Rightarrow> string list \<Rightarrow> (exn \<times> tagsMap) + tagsMap" where
  "scanFilesForTags dirPath baseUrl tagsMap rel =
     (if \<not> existsSync dirPath then Inr tagsMap
      else case statSync dirPath of
        Inl e \<Rightarrow> Inl (e, tagsMap)
      | Inr st \<Rightarrow>
          if st \<noteq> IsDirectory then Inr tagsMap
          else
            (case readdirSync dirPath of
               Inl e \<Rightarrow> Inr tagsMap
             | Inr entries \<Rightarrow>
                 (case forEachTry
                    (\<lambda>en tagsMap.
                       if startsWith (fst en) ''.'' then Inr tagsMap
                       else case statSync (snd en) of
                         Inl e \<Rightarrow> Inr tagsMap
                       | Inr stats \<Rightarrow>
                           if stats = IsDirectory then
                             scanFilesForTags (snd en) (withTrailingSlash baseUrl @ fst en @ ''/'')
                               tagsMap (rel @ [fst en])
                           else if stats = IsFile \<and> endsWith (toLowerCase (fst en)) ''.md'' then
                             (case readFrontmatter (snd en) of
                                Inl e \<Rightarrow> Inr tagsMap
                              | Inr fm \<Rightarrow>
                                  Inr (addFileTags fm (fst en) (withTrailingSlash baseUrl) rel tagsMap))
                           else Inr tagsMap)
                    entries tagsMap of
                    Inl (e, tagsMap') \<Rightarrow> Inr tagsMap'
                  | Inr tagsMap' \<Rightarrow> Inr tagsMap')))"
  by pat_completeness auto
termination
proof (relation "measure (\<lambda>(dirPath, baseUrl, tagsMap, rel). size dirPath)")
  show "wf (measure (\<lambda>(dirPath, baseUrl, tagsMap, rel). size dirPath))" by simp
next
  fix dirPath baseUrl and tagsMap tm :: tagsMap and rel :: "string list"
    and entries :: "(string \<times> fsnode) list" and en :: "string \<times> fsnode"
  assume rd: "readdirSync dirPath = Inr entries" and mem: "en \<in> set entries"
  from rd have d: "dirPath = Dir entries" by (cases dirPath) auto
  from mem have "size (snd en) < Suc (size_list (size_prod (\<lambda>x. 0) size) entries)"
    by (induction entries) (auto simp: less_Suc_eq)
  then show "((snd en, withTrailingSlash baseUrl @ fst en @ ''/'', tm, rel @ [fst en]),
              dirPath, baseUrl, tagsMap, rel)
        \<in> measure (\<lambda>(dirPath, baseUrl, tagsMap, rel). size dirPath)"
    by (simp add: d)
qed

declare scanFilesForTags.simps [simp del]

section \<open>\<^verbatim>\<open>generateTagsSidebarGroup\<close>\<close>

definition sidebarItemSorter ::
  "(string \<Rightarrow> string \<Rightarrow> int) \<Rightarrow> SidebarItem \<Rightarrow> SidebarItem \<Rightarrow> int" where
  "sidebarItemSorter lc a b =
     (let isDirA = (itemItems a \<noteq> None); isDirB = (itemItems b \<noteq> None) in
      if isDirA \<noteq> isDirB then (if isDirA then - 1 else 1)
      else lc (itemText a) (itemText b))"

text \<open>The test of \<^verbatim>\<open>parentItems.find(item => item.text === dirName && item.items)\<close>.\<close>

definition isGroupNamed :: "string \<Rightarrow> SidebarItem \<Rightarrow> bool" where
  "isGroupNamed dirName item = (itemText item = dirName \<and> itemItems item \<noteq> None)"

text \<open>
  \<^verbatim>\<open>insertPageIntoStructure\<close> updates the arrays in place; the model returns the new
  \<^verbatim>\<open>parentItems\<close>. The group \<^verbatim>\<open>dirItem\<close> is the first item that passes the test of
  \<^verbatim>\<open>find\<close>: the one found, or else the one just pushed, which after the sort is the only
  item that passes it. The recursive call replaces the items of that group.
\<close>

fun insertPageIntoStructure ::
  "(string \<Rightarrow> string \<Rightarrow> int) \<Rightarrow> SidebarItem list \<Rightarrow> string list \<Rightarrow> string \<Rightarrow> string
     \<Rightarrow> SidebarItem list" where
  "insertPageIntoStructure lc parentItems [] pageLink pageText = parentItems"
| "insertPageIntoStructure lc parentItems [currentSegment] pageLink pageText =
     (if \<not> list_ex (\<lambda>item. itemLink item = Some pageLink) parentItems
      then jsSort (sidebarItemSorter lc) (parentItems @ [Leaf pageText pageLink])
      else parentItems)"
| "insertPageIntoStructure lc parentItems (currentSegment # nextSegment # others) pageLink pageText =
     (let dirName = cleanName currentSegment;
          parentItems =
            (if \<not> list_ex (isGroupNamed dirName) parentItems
             then jsSort (sidebarItemSorter lc) (parentItems @ [Group dirName [] True])
             else parentItems)
      in case dropWhile (\<lambda>item. \<not> isGroupNamed dirName item) parentItems of
           Group t dirItems c # after \<Rightarrow>
             takeWhile (\<lambda>item. \<not> isGroupNamed dirName item) parentItems
               @ Group t (insertPageIntoStructure lc dirItems (nextSegment # others) pageLink pageText) c
               # after
         | _ \<Rightarrow> parentItems)"

text \<open>The body of \<^verbatim>\<open>pages.forEach\<close>.\<close>

definition insertTagPage ::
  "(string \<Rightarrow> string \<Rightarrow> int) \<Rightarrow> TagPageInfo \<Rightarrow> SidebarItem list \<Rightarrow> SidebarItem list" where
  "insertTagPage lc page tagRootItems =
     (let segments = filter (\<lambda>s. s \<noteq> []) (splitOn CHR ''/'' (relativePath page)) in
      if segments \<noteq> [] then insertPageIntoStructure lc tagRootItems segments (link page) (label page)
      else tagRootItems)"

text \<open>The result \<open>None\<close> is the \<^verbatim>\<open>null\<close> of the source.\<close>

definition generateTagsSidebarGroup ::
  "(string \<Rightarrow> string \<Rightarrow> int) \<Rightarrow> fsnode \<Rightarrow> string \<Rightarrow> exn + SidebarItem option" where
  "generateTagsSidebarGroup lc scanRoot baseUrl =
     (case scanFilesForTags scanRoot baseUrl [] [] of
        Inl (e, tagsMap) \<Rightarrow> Inl e
      | Inr tagsMap \<Rightarrow>
          if tagsMap = [] then Inr None
          else
            (let sortedTags = jsSort lc (map fst tagsMap);
                 tagItems = map (\<lambda>tag. Group tag (fold (insertTagPage lc) (mapGet tagsMap tag) []) True)
                              sortedTags
             in Inr (Some (Group ''Tags'' tagItems True))))"

section \<open>\<^verbatim>\<open>generateSidebar\<close>\<close>

text \<open>\<^verbatim>\<open>s.replace(/\/+/g, '/')\<close>.\<close>

fun collapseSlashes :: "string \<Rightarrow> string" where
  "collapseSlashes (c # d # cs) =
     (if c = CHR ''/'' \<and> d = CHR ''/'' then collapseSlashes (d # cs)
      else c # collapseSlashes (d # cs))"
| "collapseSlashes cs = cs"

text \<open>
  \<^verbatim>\<open>DefaultTheme.Sidebar\<close>: an object, modelled by the list of its keys with their values.
\<close>

type_synonym Sidebar = "(string \<times> SidebarItem list) list"

text \<open>
  The first \<^verbatim>\<open>try\<close> block of \<^verbatim>\<open>generateSidebar\<close>: the top-level groups. An exception
  inside the block leaves the groups pushed so far, unsorted.
\<close>

definition topLevelGroups ::
  "(string \<Rightarrow> string \<Rightarrow> int) \<Rightarrow> fsnode \<Rightarrow> string \<Rightarrow> SidebarItem list" where
  "topLevelGroups lc scanRoot baseUrl =
     (case readdirSync scanRoot of
        Inl e \<Rightarrow> []
      | Inr topLevelEntries \<Rightarrow>
          (case forEachTry
             (\<lambda>en sidebarItems.
                if startsWith (fst en) ''.'' then Inr sidebarItems
                else case statSync (snd en) of
                  Inl e \<Rightarrow> Inr sidebarItems
                | Inr stats \<Rightarrow>
                    if stats = IsDirectory then
                      (case generateSidebarItems lc (snd en)
                              (collapseSlashes (baseUrl @ fst en @ ''/'')) of
                         Inl e \<Rightarrow> Inl (e, sidebarItems)
                       | Inr groupItems \<Rightarrow>
                           if groupItems \<noteq> []
                           then Inr (sidebarItems @ [Group (cleanName (fst en)) groupItems True])
                           else Inr sidebarItems)
                    else Inr sidebarItems)
             topLevelEntries [] of
             Inl (e, sidebarItems) \<Rightarrow> sidebarItems
           | Inr sidebarItems \<Rightarrow>
               jsSort (\<lambda>a b. lc (itemText a) (itemText b)) sidebarItems))"

definition generateSidebar ::
  "(string \<Rightarrow> string \<Rightarrow> int) \<Rightarrow> fsnode \<Rightarrow> string \<Rightarrow> bool \<Rightarrow> exn + Sidebar" where
  "generateSidebar lc scanRoot baseUrl includeTags =
     (let sidebarItems = topLevelGroups lc scanRoot baseUrl in
      if includeTags then
        (case generateTagsSidebarGroup lc scanRoot baseUrl of
           Inl e \<Rightarrow> Inl e
         | Inr None \<Rightarrow> Inr [(''/'', sidebarItems)]
         | Inr (Some tagsGroup) \<Rightarrow> Inr [(''/'', sidebarItems @ [tagsGroup])])
      else Inr [(''/'', sidebarItems)])"

text \<open>
  A collation to run the definitions with: the order of the code units. It stands in
  for \<^verbatim>\<open>localeCompare\<close> in the examples.
\<close>

definition codeUnitCompare :: "string \<Rightarrow> string \<Rightarrow> int" where
  "codeUnitCompare a b = (if a < b then - 1 else if a = b then 0 else 1)"

section \<open>The console\<close>







section \<open>Notions used in the statements\<close>

text \<open>
  The items that a call of \<open>generateSidebarItems\<close> returns (it always returns, see
  \<open>generateSidebarItems_returns\<close> below).
\<close>

definition structuralItems ::
  "(string \<Rightarrow> string \<Rightarrow> int) \<Rightarrow> fsnode \<Rightarrow> string \<Rightarrow> SidebarItem list" where
  "structuralItems lc n b = (case generateSidebarItems lc n b of Inr items \<Rightarrow> items | Inl e \<Rightarrow> [])"

text \<open>The leaf that the callback of \<open>generateSidebarItems\<close> pushes for a markdown file.\<close>

definition fileItem :: "string \<Rightarrow> fsnode \<Rightarrow> string \<Rightarrow> SidebarItem" where
  "fileItem entry node baseUrl =
     Leaf (case readFrontmatter node of Inl e \<Rightarrow> cleanName entry | Inr fm \<Rightarrow> titleOrCleanName fm entry)
          (getFileLink entry baseUrl)"

text \<open>
  What one entry of a directory adds to the items of that directory: the callback of
  \<^verbatim>\<open>entries.forEach\<close> in \<open>generateSidebarItems\<close>, read as a function of the entry.
\<close>

definition sidebarEntryItems ::
  "(string \<Rightarrow> string \<Rightarrow> int) \<Rightarrow> string \<Rightarrow> string \<times> fsnode \<Rightarrow> SidebarItem list" where
  "sidebarEntryItems lc baseUrl en =
     (if startsWith (fst en) ''.'' then []
      else case statSync (snd en) of
        Inl e \<Rightarrow> []
      | Inr stats \<Rightarrow>
          if stats = IsDirectory then
            (let subItems = structuralItems lc (snd en) (baseUrl @ fst en @ ''/'') in
             if subItems \<noteq> [] then [Group (cleanName (fst en)) subItems True] else [])
          else if stats = IsFile \<and> endsWith (toLowerCase (fst en)) ''.md'' then
            [fileItem (fst en) (snd en) baseUrl]
          else [])"

text \<open>
  A comparison function that \<^verbatim>\<open>Array.prototype.sort\<close> can sort by: any two values are
  comparable and the comparison is transitive.
\<close>

definition consistentCompare :: "('a \<Rightarrow> 'a \<Rightarrow> int) \<Rightarrow> bool" where
  "consistentCompare cmp =
     ((\<forall>x y. cmp x y \<le> 0 \<or> cmp y x \<le> 0) \<and>
      (\<forall>x y z. cmp x y \<le> 0 \<longrightarrow> cmp y z \<le> 0 \<longrightarrow> cmp x z \<le> 0))"





text \<open>A tree in which the walk can reach a markdown file: no name on the way is hidden.\<close>

function hasVisibleMarkdown :: "fsnode \<Rightarrow> bool" where
  "hasVisibleMarkdown (Dir es) =
     list_ex (\<lambda>en. \<not> startsWith (fst en) ''.'' \<and>
                (case snd en of
                   File c \<Rightarrow> endsWith (toLowerCase (fst en)) ''.md''
                 | Dir ds \<Rightarrow> hasVisibleMarkdown (snd en)
                 | _ \<Rightarrow> False)) es"
| "hasVisibleMarkdown NoEntry = False"
| "hasVisibleMarkdown Special = False"
| "hasVisibleMarkdown (File c) = False"
| "hasVisibleMarkdown DirUnreadable = False"
  by pat_completeness auto
termination
proof (relation "measure size")
  show "wf (measure size)" by simp
next
  fix es :: "(string \<times> fsnode) list" and en :: "string \<times> fsnode" and ds
  assume "en \<in> set es"
  then have "size (snd en) < Suc (size_list (size_prod (\<lambda>x. 0) size) es)"
    by (induction es) (auto simp: less_Suc_eq)
  then show "(snd en, Dir es) \<in> measure size" by simp
qed

text \<open>A tree in which some file, hidden or not, declares a tag.\<close>

function declaresTags :: "fsnode \<Rightarrow> bool" where
  "declaresTags (Dir es) = list_ex (\<lambda>en. declaresTags (snd en)) es"
| "declaresTags (File (Some fm)) = (fileTagsOf fm \<noteq> [])"
| "declaresTags (File None) = False"
| "declaresTags NoEntry = False"
| "declaresTags Special = False"
| "declaresTags DirUnreadable = False"
  by pat_completeness auto
termination
proof (relation "measure size")
  show "wf (measure size)" by simp
next
  fix es :: "(string \<times> fsnode) list" and en :: "string \<times> fsnode"
  assume "en \<in> set es"
  then have "size (snd en) < Suc (size_list (size_prod (\<lambda>x. 0) size) es)"
    by (induction es) (auto simp: less_Suc_eq)
  then show "(snd en, Dir es) \<in> measure size" by simp
qed

text \<open>Every group of an item, at any depth, has at least one child.\<close>

fun groupsNonEmpty :: "SidebarItem \<Rightarrow> bool" where
  "groupsNonEmpty (Leaf t l) = True"
| "groupsNonEmpty (Group t its c) = (its \<noteq> [] \<and> list_all groupsNonEmpty its)"

text \<open>
  The map that a call of \<open>scanFilesForTags\<close> leaves behind (the source updates the map
  in place, also on the way to an exception).
\<close>

definition scannedTags :: "fsnode \<Rightarrow> string \<Rightarrow> tagsMap \<Rightarrow> string list \<Rightarrow> tagsMap" where
  "scannedTags n b tm rel =
     (case scanFilesForTags n b tm rel of Inr tm' \<Rightarrow> tm' | Inl (e, tm') \<Rightarrow> tm')"

text \<open>
  What one entry of a directory does to the map: the callback of \<^verbatim>\<open>entries.forEach\<close>
  in \<open>scanFilesForTags\<close>, read as a function of the entry.
\<close>

definition scanEntry :: "string \<Rightarrow> string list \<Rightarrow> string \<times> fsnode \<Rightarrow> tagsMap \<Rightarrow> tagsMap" where
  "scanEntry baseUrl rel en tagsMap =
     (if startsWith (fst en) ''.'' then tagsMap
      else case statSync (snd en) of
        Inl e \<Rightarrow> tagsMap
      | Inr stats \<Rightarrow>
          if stats = IsDirectory then
            scannedTags (snd en) (baseUrl @ fst en @ ''/'') tagsMap (rel @ [fst en])
          else if stats = IsFile \<and> endsWith (toLowerCase (fst en)) ''.md'' then
            (case readFrontmatter (snd en) of
               Inl e \<Rightarrow> tagsMap
             | Inr fm \<Rightarrow> addFileTags fm (fst en) baseUrl rel tagsMap)
          else tagsMap)"

text \<open>
  What one entry of the content root adds to the top-level groups: the callback of
  \<^verbatim>\<open>topLevelEntries.forEach\<close> in \<open>generateSidebar\<close>, read as a function of the entry.
\<close>

definition topLevelEntryItems ::
  "(string \<Rightarrow> string \<Rightarrow> int) \<Rightarrow> string \<Rightarrow> string \<times> fsnode \<Rightarrow> SidebarItem list" where
  "topLevelEntryItems lc baseUrl en =
     (if startsWith (fst en) ''.'' then []
      else case statSync (snd en) of
        Inl e \<Rightarrow> []
      | Inr stats \<Rightarrow>
          if stats = IsDirectory then
            (let groupItems = structuralItems lc (snd en) (collapseSlashes (baseUrl @ fst en @ ''/'')) in
             if groupItems \<noteq> [] then [Group (cleanName (fst en)) groupItems True] else [])
          else [])"

text \<open>Trees and front matter for the examples.\<close>

definition plainPage :: frontmatter where
  "plainPage = \<lparr>title = None, tags = TagsAbsent\<rparr>"

definition taggedPage :: "string \<Rightarrow> string \<Rightarrow> frontmatter" where
  "taggedPage t ts = \<lparr>title = Some t, tags = TagsString ts\<rparr>"

definition guideEntries :: "(string \<times> fsnode) list" where
  "guideEntries =
     [(''setup.md'', File (Some plainPage)),
      (''sub'', Dir [(''x.md'', File None)]),
      (''Index.md'', File (Some (taggedPage ''Home'' '''')))]"

text \<open>The \<^verbatim>\<open>TagPageInfo\<close> that the scan records for a markdown file.\<close>

definition pageOf :: "frontmatter \<Rightarrow> string \<Rightarrow> string \<Rightarrow> string list \<Rightarrow> TagPageInfo" where
  "pageOf fm entry baseUrl rel =
     \<lparr>link = getFileLink entry baseUrl, label = titleOrCleanName fm entry,
      relativePath = relativePathOf rel entry\<rparr>"

text \<open>
  The two trees of the tutorial example: \<^verbatim>\<open>2025/may/intro.md\<close> and
  \<^verbatim>\<open>2025/june/advanced.md\<close>, both tagged \<^verbatim>\<open>tutorial\<close>, with the two directories listed in
  either order.
\<close>

definition mayDir :: "string \<times> fsnode" where
  "mayDir = (''may'', Dir [(''intro.md'', File (Some (taggedPage ''Intro'' ''tutorial'')))])"

definition juneDir :: "string \<times> fsnode" where
  "juneDir = (''june'', Dir [(''advanced.md'', File (Some (taggedPage ''Advanced'' ''tutorial'')))])"

definition tutorialTree :: "(string \<times> fsnode) list \<Rightarrow> fsnode" where
  "tutorialTree months = Dir [(''2025'', Dir months)]"

definition mayGroup :: SidebarItem where
  "mayGroup = Group ''May'' [Leaf ''Intro'' ''/2025/may/intro''] True"

definition juneGroup :: SidebarItem where
  "juneGroup = Group ''June'' [Leaf ''Advanced'' ''/2025/june/advanced''] True"

text \<open>The links that the items of one sibling list carry, in the order of the list.\<close>

definition siblingLinks :: "SidebarItem list \<Rightarrow> string list" where
  "siblingLinks its = List.map_filter itemLink its"

text \<open>In the child list of every group of the item, at any depth, no link occurs twice.\<close>

fun uniqueLinks :: "SidebarItem \<Rightarrow> bool" where
  "uniqueLinks (Leaf t l) = True"
| "uniqueLinks (Group t its c) = (distinct (siblingLinks its) \<and> list_all uniqueLinks its)"

text \<open>The links of the leaves of an item, at any depth.\<close>

fun linksUnder :: "SidebarItem \<Rightarrow> string set" where
  "linksUnder (Leaf t l) = {l}"
| "linksUnder (Group t its c) = (\<Union>i\<in>set its. linksUnder i)"

definition allLinks :: "SidebarItem list \<Rightarrow> string set" where
  "allLinks its = (\<Union>i\<in>set its. linksUnder i)"

text \<open>The leaves of an item, at any depth, each as its text and its link.\<close>

fun leavesUnder :: "SidebarItem \<Rightarrow> (string \<times> string) set" where
  "leavesUnder (Leaf t l) = {(t, l)}"
| "leavesUnder (Group t its c) = (\<Union>i\<in>set its. leavesUnder i)"

definition allLeaves :: "SidebarItem list \<Rightarrow> (string \<times> string) set" where
  "allLeaves its = (\<Union>i\<in>set its. leavesUnder i)"

text \<open>An entry for which the walk and the scan read a markdown file.\<close>

definition markdownFileEntry :: "string \<times> fsnode \<Rightarrow> bool" where
  "markdownFileEntry en =
     (\<not> startsWith (fst en) ''.'' \<and> statSync (snd en) = Inr IsFile \<and>
      endsWith (toLowerCase (fst en)) ''.md'')"

text \<open>The segments of a relative path, as \<open>insertTagPage\<close> computes them.\<close>

definition pathSegments :: "string \<Rightarrow> string list" where
  "pathSegments p = filter (\<lambda>s. s \<noteq> []) (splitOn CHR ''/'' p)"

text \<open>Some page under the tag \<open>t\<close> of the map carries the link \<open>l\<close>.\<close>

definition linkRecorded :: "tagsMap \<Rightarrow> string \<Rightarrow> string \<Rightarrow> bool" where
  "linkRecorded tm t l = list_ex (\<lambda>p. link p = l) (mapGet tm t)"

text \<open>The relative path of every page of the map has a segment.\<close>

definition pagesHaveSegments :: "tagsMap \<Rightarrow> bool" where
  "pagesHaveSegments tm = (\<forall>t. list_all (\<lambda>p. pathSegments (relativePath p) \<noteq> []) (mapGet tm t))"

text \<open>The invariant of a sibling list that \<open>insertPageIntoStructure\<close> keeps.\<close>

definition linksKept :: "SidebarItem list \<Rightarrow> bool" where
  "linksKept its = (distinct (siblingLinks its) \<and> list_all uniqueLinks its)"

definition quietTree :: fsnode where
  "quietTree =
     Dir [(''.drafts'', Dir [(''wip.md'', File (Some (taggedPage ''Wip'' '''')))]),
          (''assets'', Dir [(''logo.png'', File None)]),
          (''empty'', Dir [])]"


definition looseTree :: "(string \<times> fsnode) list" where
  "looseTree =
     [(''index.md'', File (Some (taggedPage ''Home'' ''meta''))),
      (''about.md'', File (Some (taggedPage ''About'' ''meta, site''))),
      (''guide'', Dir [(''setup.md'', File (Some plainPage))])]"

text \<open>Two files of the content root that resolve to the same link, both tagged \<^verbatim>\<open>t\<close>.\<close>

definition twinTree :: "(string \<times> fsnode) list" where
  "twinTree =
     [(''index.md'', File (Some (taggedPage ''Home'' ''t''))),
      (''readme.md'', File (Some (taggedPage ''Read me'' ''t'')))]"







section \<open>The name normaliser and the link resolver\<close>

lemma toLowerChar_toUpperChar: "toLowerChar (toUpperChar c) = toLowerChar c"
  by (simp add: toLowerChar_def toUpperChar_def lowerLetters_def upperLetters_def)

lemma toUpperChar_toLowerChar: "toUpperChar (toLowerChar c) = toUpperChar c"
  by (simp add: toLowerChar_def toUpperChar_def lowerLetters_def upperLetters_def)

lemma toUpperCase_eq_iff:
  "toUpperCase s = toUpperCase t \<longleftrightarrow> toLowerCase s = toLowerCase t"
proof
  assume "toUpperCase s = toUpperCase t"
  then have "map toLowerChar (toUpperCase s) = map toLowerChar (toUpperCase t)" by simp
  then show "toLowerCase s = toLowerCase t"
    by (simp add: toUpperCase_def toLowerCase_def toLowerChar_toUpperChar o_def)
next
  assume "toLowerCase s = toLowerCase t"
  then have "map toUpperChar (toLowerCase s) = map toUpperChar (toLowerCase t)" by simp
  then show "toUpperCase s = toUpperCase t"
    by (simp add: toUpperCase_def toLowerCase_def toUpperChar_toLowerChar o_def)
qed

lemma isIndexStem_iff:
  "isIndexStem s \<longleftrightarrow> toLowerCase s = ''index'' \<or> toLowerCase s = ''readme''"
proof -
  have "toLowerCase ''index'' = ''index''" "toLowerCase ''readme'' = ''readme''"
    by code_simp+
  then show ?thesis
    by (simp add: isIndexStem_def matchesIgnoreCase_def toUpperCase_eq_iff)
qed

text \<open>
  On a name without a slash the scan of \<open>extname\<close> never leaves the name: the end of
  the extension is the end of the name, and its start is a position inside the name.
\<close>

lemma extnameLoop_bounds:
  assumes "n \<le> length p" "\<forall>i<n. p ! i \<noteq> CHR ''/''"
    and "- 1 \<le> startDot s" "startDot s < int (length p)"
    and "if n < length p then endPos s = int (length p) else endPos s = - 1"
  shows "(endPos (extnameLoop p n s) = - 1 \<or> endPos (extnameLoop p n s) = int (length p)) \<and>
         - 1 \<le> startDot (extnameLoop p n s) \<and> startDot (extnameLoop p n s) < int (length p)"
  using assms
proof (induction n arbitrary: s)
  case 0
  then show ?case by (auto split: if_splits)
next
  case (Suc n)
  define s1 where
    "s1 = (if endPos s = - 1 then s\<lparr>endPos := int n + 1, matchedSlash := False\<rparr> else s)"
  define s2 where
    "s2 = (if p ! n = CHR ''.'' then
             (if startDot s1 = - 1 then s1\<lparr>startDot := int n\<rparr>
              else if preDotState s1 \<noteq> 1 then s1\<lparr>preDotState := 1\<rparr>
              else s1)
           else if startDot s1 \<noteq> - 1 then s1\<lparr>preDotState := - 1\<rparr>
           else s1)"
  have noSlash: "p ! n \<noteq> CHR ''/''" using Suc.prems(2) by simp
  have unroll: "extnameLoop p (Suc n) s = extnameLoop p n s2"
    using noSlash by (simp add: s1_def s2_def Let_def)
  have end1: "endPos s1 = int (length p)"
    using Suc.prems(1,5) by (auto simp: s1_def split: if_splits)
  have dot1: "- 1 \<le> startDot s1" "startDot s1 < int (length p)"
    using Suc.prems(3,4) by (auto simp: s1_def)
  have end2: "endPos s2 = int (length p)"
    using end1 by (simp add: s2_def)
  have dot2: "- 1 \<le> startDot s2" "startDot s2 < int (length p)"
    using dot1 Suc.prems(1) by (auto simp: s2_def)
  have "(endPos (extnameLoop p n s2) = - 1 \<or> endPos (extnameLoop p n s2) = int (length p)) \<and>
         - 1 \<le> startDot (extnameLoop p n s2) \<and> startDot (extnameLoop p n s2) < int (length p)"
  proof (rule Suc.IH)
    show "n \<le> length p" using Suc.prems(1) by simp
    show "\<forall>i<n. p ! i \<noteq> CHR ''/''" using Suc.prems(2) by simp
    show "- 1 \<le> startDot s2" by (rule dot2)
    show "startDot s2 < int (length p)" by (rule dot2)
    show "if n < length p then endPos s2 = int (length p) else endPos s2 = - 1"
      using end2 Suc.prems(1) by simp
  qed
  then show ?case by (simp only: unroll)
qed

lemma extname_is_suffix:
  assumes "CHR ''/'' \<notin> set p"
  shows "fileNameWithoutExtension p @ extname p = p"
proof -
  let ?s0 = "\<lparr>startDot = - 1, startPart = 0, endPos = - 1, matchedSlash = True, preDotState = 0\<rparr>"
  let ?r = "extnameLoop p (length p) ?s0"
  have bounds: "(endPos ?r = - 1 \<or> endPos ?r = int (length p)) \<and>
      - 1 \<le> startDot ?r \<and> startDot ?r < int (length p)"
  proof (cases "p = []")
    case True
    then show ?thesis by simp
  next
    case False
    show ?thesis
      by (rule extnameLoop_bounds) (use assms False in \<open>auto simp: in_set_conv_nth\<close>)
  qed
  show ?thesis
  proof (cases "extname p = []")
    case True
    then show ?thesis by (simp add: fileNameWithoutExtension_def)
  next
    case False
    then have ext: "extname p = drop (nat (startDot ?r)) (take (nat (endPos ?r)) p)"
      and set: "endPos ?r \<noteq> - 1" "startDot ?r \<noteq> - 1"
      by (auto simp: extname_def Let_def split: if_splits)
    from bounds set have e: "endPos ?r = int (length p)"
      and d: "0 \<le> startDot ?r" "startDot ?r < int (length p)"
      by auto
    have ext': "extname p = drop (nat (startDot ?r)) p" using ext e by simp
    have len: "length p - length (extname p) = nat (startDot ?r)"
      using d by (simp add: ext')
    show ?thesis
      unfolding fileNameWithoutExtension_def len by (simp add: ext')
  qed
qed

text \<open>
  Claim C2, as amended. \<open>cleanName\<close> maps \<^verbatim>\<open>01-my_post-name.md\<close> to \<^verbatim>\<open>My Post Name\<close>.
  It puts the first letter of every word in upper case and leaves the other letters
  as they are: it maps \<^verbatim>\<open>README\<close> to \<^verbatim>\<open>README\<close> and \<^verbatim>\<open>readme\<close> to \<^verbatim>\<open>Readme\<close>. When
  nothing is left after the cleaning, as for \<^verbatim>\<open>_.md\<close>, the result is the name itself.
\<close>

theorem C2_cleanName_examples:
  "cleanName ''01-my_post-name.md'' = ''My Post Name'' \<and>
   cleanName ''README'' = ''README'' \<and>
   cleanName ''readme'' = ''Readme'' \<and>
   cleanName ''_.md'' = ''_.md''"
  by code_simp

text \<open>Claim C2 as the specification states it fails: \<^verbatim>\<open>README\<close> does not become \<^verbatim>\<open>Readme\<close>.\<close>

theorem C2_readme_counterexample: "cleanName ''README'' \<noteq> ''Readme''"
  by code_simp

text \<open>
  Claim C5. For every file name (a name holds no slash) and every base URL,
  \<open>getFileLink\<close> returns the base URL when the name without its extension is
  \<^verbatim>\<open>index\<close> or \<^verbatim>\<open>readme\<close> in any mix of cases, with \<^verbatim>\<open>/\<close> in place of the base URL
  \<^verbatim>\<open>/index/\<close>, and the base URL followed by the name without its extension for every
  other file. The name without its extension, followed by the extension, is the name.
\<close>

theorem C5_getFileLink_resolves:
  assumes "CHR ''/'' \<notin> set filePath"
  shows "getFileLink filePath baseUrl =
           (if toLowerCase (fileNameWithoutExtension filePath) = ''index'' \<or>
               toLowerCase (fileNameWithoutExtension filePath) = ''readme''
            then (if baseUrl = ''/index/'' then ''/'' else baseUrl)
            else baseUrl @ fileNameWithoutExtension filePath) \<and>
         fileNameWithoutExtension filePath @ extname filePath = filePath"
  using extname_is_suffix [OF assms]
  by (simp add: getFileLink_def isIndexStem_iff contentBaseUrl_def)

theorem C5_getFileLink_witness:
  "getFileLink ''ReadMe.MD'' ''/guide/'' = ''/guide/'' \<and>
   getFileLink ''index.md'' ''/index/'' = ''/'' \<and>
   getFileLink ''setup.md'' ''/guide/'' = ''/guide/setup'' \<and>
   fileNameWithoutExtension ''setup.md'' @ extname ''setup.md'' = ''setup.md''"
proof -
  have names: "CHR ''/'' \<notin> set ''ReadMe.MD''" "CHR ''/'' \<notin> set ''index.md''"
    "CHR ''/'' \<notin> set ''setup.md''"
    by simp_all
  have stems: "fileNameWithoutExtension ''ReadMe.MD'' = ''ReadMe''"
    "fileNameWithoutExtension ''index.md'' = ''index''"
    "fileNameWithoutExtension ''setup.md'' = ''setup''"
    by code_simp+
  have lower: "toLowerCase ''ReadMe'' = ''readme''" "toLowerCase ''index'' = ''index''"
    "toLowerCase ''setup'' = ''setup''"
    by code_simp+
  show ?thesis
    using C5_getFileLink_resolves [OF names(1), of "''/guide/''"]
      C5_getFileLink_resolves [OF names(2), of "''/index/''"]
      C5_getFileLink_resolves [OF names(3), of "''/guide/''"]
    by (simp add: stems lower)
qed

section \<open>The key of the sidebar object\<close>

text \<open>
  Claim C3, at the base URL \<^verbatim>\<open>/docs/\<close>. The links of the model lie under \<^verbatim>\<open>/docs/\<close>, and
  the key of the returned object is \<^verbatim>\<open>/\<close>: the key is the literal of the \<^verbatim>\<open>return\<close>
  statement, not the argument \<open>baseUrl\<close>.
\<close>

theorem C3_key_at_docs:
  "generateSidebar codeUnitCompare
     (Dir [(''guide'', Dir [(''setup.md'', File (Some \<lparr>title = None, tags = TagsAbsent\<rparr>))])])
     ''/docs/'' True
   = Inr [(''/'', [Group ''Guide'' [Leaf ''Setup'' ''/docs/guide/setup''] True])]"
  by code_simp

section \<open>The structural walk\<close>

lemma forEachTry_appends:
  assumes "\<And>x s. x \<in> set xs \<Longrightarrow> f x s = Inr (s @ g x)"
  shows "forEachTry f xs s = Inr (s @ concat (map g xs))"
  using assms by (induction xs arbitrary: s) auto

lemma forEachTry_folds:
  assumes "\<And>x s. x \<in> set xs \<Longrightarrow> f x s = Inr (g x s)"
  shows "forEachTry f xs s = Inr (fold g xs s)"
  using assms by (induction xs arbitrary: s) auto


lemma generateSidebarItems_returns: "\<exists>items. generateSidebarItems lc n b = Inr items"
  by (cases n) (auto simp: generateSidebarItems.simps split: sum.splits prod.splits)

lemma generateSidebarItems_structuralItems:
  "generateSidebarItems lc n b = Inr (structuralItems lc n b)"
  using generateSidebarItems_returns [of lc n b] by (auto simp: structuralItems_def)

lemma structuralItems_Dir:
  "structuralItems lc (Dir es) b =
     concat (map (sidebarEntryItems lc (withTrailingSlash b)) (jsSort (entryCompare lc) es))"
  unfolding structuralItems_def
  apply (subst generateSidebarItems.simps)
  apply (simp del: forEachTry.simps)
  apply (subst forEachTry_appends [where g = "sidebarEntryItems lc (withTrailingSlash b)"])
   apply (auto simp: sidebarEntryItems_def fileItem_def generateSidebarItems_structuralItems Let_def
      split: sum.splits)
  done

lemma structuralItems_not_Dir:
  "(\<And>es. n \<noteq> Dir es) \<Longrightarrow> structuralItems lc n b = []"
  unfolding structuralItems_def
  by (cases n) (auto simp: generateSidebarItems.simps)

section \<open>The order of the entries\<close>

lemma mset_insertSorted: "mset (insertSorted cmp x xs) = add_mset x (mset xs)"
  by (induction xs) auto

lemma mset_jsSort: "mset (jsSort cmp xs) = mset xs"
  unfolding jsSort_def by (induction xs) (auto simp: mset_insertSorted)






lemma consistent_codeUnitCompare: "consistentCompare codeUnitCompare"
proof -
  have "\<And>x y :: string. x < y \<or> x = y \<or> y < x" by auto
  moreover have "\<And>x y z :: string. x \<le> y \<Longrightarrow> y \<le> z \<Longrightarrow> x \<le> z" by auto
  moreover have "\<And>x y. codeUnitCompare x y \<le> 0 \<longleftrightarrow> x \<le> y"
    unfolding codeUnitCompare_def by auto
  ultimately show ?thesis
    unfolding consistentCompare_def by (metis linear)
qed




section \<open>The tag scan\<close>

lemma scanFilesForTags_returns: "\<exists>tm'. scanFilesForTags n b tm rel = Inr tm'"
  by (cases n) (auto simp: scanFilesForTags.simps split: sum.splits prod.splits)

lemma scanFilesForTags_scannedTags:
  "scanFilesForTags n b tm rel = Inr (scannedTags n b tm rel)"
  using scanFilesForTags_returns [of n b tm rel] by (auto simp: scannedTags_def)

lemma scannedTags_Dir:
  "scannedTags (Dir es) b tm rel = fold (scanEntry (withTrailingSlash b) rel) es tm"
  unfolding scannedTags_def
  apply (subst scanFilesForTags.simps)
  apply (simp del: forEachTry.simps)
  apply (subst forEachTry_folds [where g = "scanEntry (withTrailingSlash b) rel"])
   apply (auto simp: scanEntry_def scanFilesForTags_scannedTags split: sum.splits)
  done

lemma scannedTags_not_Dir:
  "(\<And>es. n \<noteq> Dir es) \<Longrightarrow> scannedTags n b tm rel = tm"
  unfolding scannedTags_def
  by (cases n) (auto simp: scanFilesForTags.simps)

lemma fold_unchanged: "(\<And>x s. x \<in> set xs \<Longrightarrow> f x s = s) \<Longrightarrow> fold f xs s = s"
  by (induction xs arbitrary: s) auto

lemma scannedTags_without_tags:
  "\<not> declaresTags n \<Longrightarrow> scannedTags n b tm rel = tm"
proof (induction n arbitrary: b tm rel rule: declaresTags.induct)
  case (1 es)
  have "\<And>en s. en \<in> set es \<Longrightarrow> scanEntry (withTrailingSlash b) rel en s = s"
  proof -
    fix en s assume en: "en \<in> set es"
    then have nt: "\<not> declaresTags (snd en)" using "1.prems" by (auto simp: list_ex_iff)
    show "scanEntry (withTrailingSlash b) rel en s = s"
    proof (cases "snd en")
      case (File c)
      then show ?thesis using nt
        by (cases c) (auto simp: scanEntry_def addFileTags_def)
    next
      case (Dir ds)
      then show ?thesis using "1.IH" [OF en nt] by (auto simp: scanEntry_def)
    qed (auto simp: scanEntry_def scannedTags_not_Dir)
  qed
  then show ?case by (simp add: scannedTags_Dir fold_unchanged)
qed (simp_all add: scannedTags_not_Dir)

section \<open>The composition\<close>



lemma generateTagsSidebarGroup_without_tags:
  "\<not> declaresTags n \<Longrightarrow> generateTagsSidebarGroup lc n b = Inr None"
  by (simp add: generateTagsSidebarGroup_def scanFilesForTags_scannedTags scannedTags_without_tags)

lemma topLevelGroups_not_Dir: "(\<And>es. n \<noteq> Dir es) \<Longrightarrow> topLevelGroups lc n b = []"
  by (cases n) (auto simp: topLevelGroups_def)

lemma topLevelGroups_Dir:
  "topLevelGroups lc (Dir es) b =
     jsSort (\<lambda>x y. lc (itemText x) (itemText y)) (concat (map (topLevelEntryItems lc b) es))"
  unfolding topLevelGroups_def
  apply (simp del: forEachTry.simps)
  apply (subst forEachTry_appends [where g = "topLevelEntryItems lc b"])
   apply (auto simp: topLevelEntryItems_def generateSidebarItems_structuralItems Let_def
      split: sum.splits)
  done

section \<open>Empty results\<close>

lemma concat_map_Nil_iff: "concat (map f xs) = [] \<longleftrightarrow> (\<forall>x\<in>set xs. f x = [])"
  by (induction xs) auto

lemma sidebarEntryItems_Nil_iff:
  "sidebarEntryItems lc b en = [] \<longleftrightarrow>
     (startsWith (fst en) ''.'' \<or>
      (case snd en of
         File c \<Rightarrow> \<not> endsWith (toLowerCase (fst en)) ''.md''
       | Dir ds \<Rightarrow> structuralItems lc (snd en) (b @ fst en @ ''/'') = []
       | _ \<Rightarrow> True))"
  by (cases "snd en")
     (auto simp: sidebarEntryItems_def Let_def structuralItems_not_Dir)

lemma structuralItems_Nil_iff:
  "structuralItems lc n b = [] \<longleftrightarrow> \<not> hasVisibleMarkdown n"
proof (induction n arbitrary: b rule: hasVisibleMarkdown.induct)
  case (1 es)
  have "structuralItems lc (Dir es) b = [] \<longleftrightarrow>
        (\<forall>en\<in>set es. sidebarEntryItems lc (withTrailingSlash b) en = [])"
    by (simp add: structuralItems_Dir concat_map_Nil_iff set_jsSort)
  also have "\<dots> \<longleftrightarrow> \<not> hasVisibleMarkdown (Dir es)"
    unfolding hasVisibleMarkdown.simps list_ex_iff sidebarEntryItems_Nil_iff
    using "1.IH" by (auto split: fsnode.splits)
  finally show ?case .
qed (simp_all add: structuralItems_not_Dir)

lemma groupsNonEmpty_structuralItems:
  "list_all groupsNonEmpty (structuralItems lc n b)"
proof (induction n arbitrary: b rule: hasVisibleMarkdown.induct)
  case (1 es)
  have "\<forall>en\<in>set es. list_all groupsNonEmpty (sidebarEntryItems lc (withTrailingSlash b) en)"
  proof
    fix en assume en: "en \<in> set es"
    show "list_all groupsNonEmpty (sidebarEntryItems lc (withTrailingSlash b) en)"
    proof (cases "snd en")
      case (Dir ds)
      then show ?thesis
        using "1.IH" [OF en Dir] by (auto simp: sidebarEntryItems_def Let_def)
    qed (auto simp: sidebarEntryItems_def Let_def fileItem_def structuralItems_not_Dir)
  qed
  then show ?case
    by (simp add: structuralItems_Dir list_all_iff set_jsSort)
qed (simp_all add: structuralItems_not_Dir)

lemma groupsNonEmpty_topLevelEntryItems:
  "list_all groupsNonEmpty (topLevelEntryItems lc b en)"
  using groupsNonEmpty_structuralItems [of lc "snd en"]
  by (auto simp: topLevelEntryItems_def Let_def split: sum.splits)

lemma groupsNonEmpty_topLevelGroups:
  "list_all groupsNonEmpty (topLevelGroups lc n b)"
proof (cases n)
  case (Dir es)
  then show ?thesis
    using groupsNonEmpty_topLevelEntryItems [of lc b]
    by (simp add: topLevelGroups_Dir list_all_iff set_jsSort)
qed (simp_all add: topLevelGroups_not_Dir)

text \<open>
  Claim C9. A tree in which the walk reaches no markdown file (it holds none, or only
  hidden entries, or only other files) has no items, and a directory with such a tree
  adds no group to its parent, in a subdirectory as at the top level. No group of the
  structural items is empty, at any depth. When no file of the tree declares a tag,
  \<open>generateTagsSidebarGroup\<close> returns \<^verbatim>\<open>null\<close> and the navigation model holds the
  top-level groups only.
\<close>

theorem C9_empty_results_pruned:
  "(\<not> hasVisibleMarkdown dir \<longrightarrow> generateSidebarItems lc dir baseUrl = Inr []) \<and>
   (\<not> hasVisibleMarkdown (Dir es) \<longrightarrow>
      sidebarEntryItems lc baseUrl (name, Dir es) = [] \<and>
      topLevelEntryItems lc baseUrl (name, Dir es) = []) \<and>
   (\<forall>items. generateSidebarItems lc dir baseUrl = Inr items \<longrightarrow> list_all groupsNonEmpty items) \<and>
   list_all groupsNonEmpty (topLevelGroups lc scanRoot baseUrl) \<and>
   (\<not> declaresTags scanRoot \<longrightarrow>
      generateTagsSidebarGroup lc scanRoot baseUrl = Inr None \<and>
      generateSidebar lc scanRoot baseUrl True = Inr [(''/'', topLevelGroups lc scanRoot baseUrl)])"
proof (intro conjI impI allI)
  assume "\<not> hasVisibleMarkdown dir"
  then show "generateSidebarItems lc dir baseUrl = Inr []"
    by (simp add: generateSidebarItems_structuralItems structuralItems_Nil_iff)
next
  assume "\<not> hasVisibleMarkdown (Dir es)"
  then have none: "\<And>b. structuralItems lc (Dir es) b = []"
    using structuralItems_Nil_iff [of lc "Dir es"] by blast
  show "sidebarEntryItems lc baseUrl (name, Dir es) = []"
    by (simp add: sidebarEntryItems_def none)
  show "topLevelEntryItems lc baseUrl (name, Dir es) = []"
    by (simp add: topLevelEntryItems_def none)
next
  fix items assume "generateSidebarItems lc dir baseUrl = Inr items"
  then have "items = structuralItems lc dir baseUrl"
    by (simp add: generateSidebarItems_structuralItems)
  then show "list_all groupsNonEmpty items"
    by (simp add: groupsNonEmpty_structuralItems)
next
  show "list_all groupsNonEmpty (topLevelGroups lc scanRoot baseUrl)"
    by (rule groupsNonEmpty_topLevelGroups)
next
  assume "\<not> declaresTags scanRoot"
  then show "generateTagsSidebarGroup lc scanRoot baseUrl = Inr None"
    by (rule generateTagsSidebarGroup_without_tags)
  then show "generateSidebar lc scanRoot baseUrl True =
      Inr [(''/'', topLevelGroups lc scanRoot baseUrl)]"
    by (simp add: generateSidebar_def)
qed

theorem C9_empty_results_witness:
  "\<not> hasVisibleMarkdown quietTree \<and> \<not> declaresTags quietTree \<and>
   generateSidebarItems codeUnitCompare quietTree ''/'' = Inr [] \<and>
   topLevelEntryItems codeUnitCompare ''/'' (''assets'', Dir [(''logo.png'', File None)]) = [] \<and>
   generateTagsSidebarGroup codeUnitCompare quietTree ''/'' = Inr None \<and>
   generateSidebar codeUnitCompare quietTree ''/'' True = Inr [(''/'', [])]"
proof -
  have quiet: "\<not> hasVisibleMarkdown quietTree" by code_simp
  have assets: "\<not> hasVisibleMarkdown (Dir [(''logo.png'', File None)])" by code_simp
  have silent: "\<not> declaresTags quietTree" by code_simp
  have top: "topLevelGroups codeUnitCompare quietTree ''/'' = []" by code_simp
  note c = C9_empty_results_pruned [of quietTree codeUnitCompare "''/''"
      "[(''logo.png'', File None)]" "''assets''" quietTree]
  have r1: "generateSidebarItems codeUnitCompare quietTree ''/'' = Inr []"
    using c quiet by blast
  have r2: "topLevelEntryItems codeUnitCompare ''/'' (''assets'', Dir [(''logo.png'', File None)]) = []"
    using c assets by blast
  have r3: "generateTagsSidebarGroup codeUnitCompare quietTree ''/'' = Inr None \<and>
      generateSidebar codeUnitCompare quietTree ''/'' True =
        Inr [(''/'', topLevelGroups codeUnitCompare quietTree ''/'')]"
    using c silent by blast
  show ?thesis
    using quiet silent r1 r2 r3 top by simp
qed

section \<open>The console output\<close>














section \<open>No fatal error\<close>




section \<open>The tag index\<close>

lemma map_of_mapSet: "map_of (mapSet m k v) = (map_of m)(k \<mapsto> v)"
  by (induction m) (auto simp: fun_eq_iff)

lemma mapHas_mapSet: "mapHas (mapSet m k v) k' \<longleftrightarrow> k' = k \<or> mapHas m k'"
  by (simp add: mapHas_def map_of_mapSet)

lemma mapGet_mapSet: "mapGet (mapSet m k v) k' = (if k' = k then v else mapGet m k')"
  by (simp add: mapGet_def map_of_mapSet)

lemma mapGet_missing: "\<not> mapHas m k \<Longrightarrow> mapGet m k = []"
  by (simp add: mapGet_def mapHas_def)

lemma mapHas_iff_key: "mapHas m k \<longleftrightarrow> k \<in> set (map fst m)"
  by (simp add: mapHas_def map_of_eq_None_iff)

lemma mapGet_addTagPage:
  "mapGet (addTagPage p t m) k =
     (if k = trim t \<and> \<not> list_ex (\<lambda>item. link item = link p) (mapGet m k)
      then mapGet m k @ [p] else mapGet m k)"
  by (auto simp: addTagPage_def Let_def mapGet_mapSet mapGet_missing)

lemma mapHas_addTagPage: "mapHas (addTagPage p t m) k \<longleftrightarrow> k = trim t \<or> mapHas m k"
  by (auto simp: addTagPage_def Let_def mapHas_mapSet)


lemma addFileTags_pageOf:
  "addFileTags fm entry baseUrl rel tm =
     (if fileTagsOf fm \<noteq> []
      then fold (addTagPage (pageOf fm entry baseUrl rel)) (fileTagsOf fm) tm else tm)"
  by (simp add: addFileTags_def pageOf_def Let_def)




section \<open>The tutorial example\<close>

lemma scan_may_first:
  "scanFilesForTags (tutorialTree [mayDir, juneDir]) ''/'' [] [] =
     Inr [(''tutorial'',
           [\<lparr>link = ''/2025/may/intro'', label = ''Intro'', relativePath = ''2025/may/intro.md''\<rparr>,
            \<lparr>link = ''/2025/june/advanced'', label = ''Advanced'',
               relativePath = ''2025/june/advanced.md''\<rparr>])]"
  by code_simp

lemma scan_june_first:
  "scanFilesForTags (tutorialTree [juneDir, mayDir]) ''/'' [] [] =
     Inr [(''tutorial'',
           [\<lparr>link = ''/2025/june/advanced'', label = ''Advanced'',
               relativePath = ''2025/june/advanced.md''\<rparr>,
            \<lparr>link = ''/2025/may/intro'', label = ''Intro'', relativePath = ''2025/may/intro.md''\<rparr>])]"
  by code_simp

lemma tutorial_segments:
  "filter (\<lambda>s. s \<noteq> []) (splitOn CHR ''/'' ''2025/may/intro.md'') = [''2025'', ''may'', ''intro.md'']"
  "filter (\<lambda>s. s \<noteq> []) (splitOn CHR ''/'' ''2025/june/advanced.md'') =
     [''2025'', ''june'', ''advanced.md'']"
  by code_simp+

lemma tutorial_names:
  "cleanName ''2025'' = ''2025''" "cleanName ''may'' = ''May''" "cleanName ''june'' = ''June''"
  by code_simp+

lemma tutorial_may_first:
  "insertTagPage lc
     \<lparr>link = ''/2025/june/advanced'', label = ''Advanced'',
        relativePath = ''2025/june/advanced.md''\<rparr>
     (insertTagPage lc
        \<lparr>link = ''/2025/may/intro'', label = ''Intro'', relativePath = ''2025/may/intro.md''\<rparr>
        []) =
   [Group ''2025''
      (if lc ''May'' ''June'' \<le> 0 then [mayGroup, juneGroup] else [juneGroup, mayGroup]) True]"
  by (simp add: insertTagPage_def tutorial_segments tutorial_names jsSort_def sidebarItemSorter_def
      isGroupNamed_def mayGroup_def juneGroup_def)

lemma tutorial_june_first:
  "insertTagPage lc
     \<lparr>link = ''/2025/may/intro'', label = ''Intro'', relativePath = ''2025/may/intro.md''\<rparr>
     (insertTagPage lc
        \<lparr>link = ''/2025/june/advanced'', label = ''Advanced'',
           relativePath = ''2025/june/advanced.md''\<rparr>
        []) =
   [Group ''2025''
      (if lc ''June'' ''May'' \<le> 0 then [juneGroup, mayGroup] else [mayGroup, juneGroup]) True]"
  by (simp add: insertTagPage_def tutorial_segments tutorial_names jsSort_def sidebarItemSorter_def
      isGroupNamed_def mayGroup_def juneGroup_def)

text \<open>
  Claim C8. For the content root that holds \<^verbatim>\<open>2025/may/intro.md\<close> (title \<^verbatim>\<open>Intro\<close>) and
  \<^verbatim>\<open>2025/june/advanced.md\<close> (title \<^verbatim>\<open>Advanced\<close>), both tagged \<^verbatim>\<open>tutorial\<close>, and for every
  collation: the group \<^verbatim>\<open>Tags\<close> holds the group \<^verbatim>\<open>tutorial\<close>, which holds one group
  \<^verbatim>\<open>2025\<close>, whose children are the group \<^verbatim>\<open>May\<close> with the leaf \<^verbatim>\<open>Intro\<close> and the group
  \<^verbatim>\<open>June\<close> with the leaf \<^verbatim>\<open>Advanced\<close>, in the order that the collation gives the two
  names. This holds for either order in which the directory \<^verbatim>\<open>2025\<close> lists its entries.
\<close>

theorem C8_tutorial_groups:
  "generateTagsSidebarGroup lc (tutorialTree [mayDir, juneDir]) ''/'' =
     Inr (Some (Group ''Tags''
       [Group ''tutorial''
          [Group ''2025''
             (if lc ''May'' ''June'' \<le> 0 then [mayGroup, juneGroup] else [juneGroup, mayGroup])
             True] True] True)) \<and>
   generateTagsSidebarGroup lc (tutorialTree [juneDir, mayDir]) ''/'' =
     Inr (Some (Group ''Tags''
       [Group ''tutorial''
          [Group ''2025''
             (if lc ''June'' ''May'' \<le> 0 then [juneGroup, mayGroup] else [mayGroup, juneGroup])
             True] True] True))"
  by (simp add: generateTagsSidebarGroup_def scan_may_first scan_june_first jsSort_def mapGet_def
      tutorial_may_first tutorial_june_first)

theorem C8_tutorial_groups_witness:
  "generateTagsSidebarGroup codeUnitCompare (tutorialTree [mayDir, juneDir]) ''/'' =
     Inr (Some (Group ''Tags''
       [Group ''tutorial''
          [Group ''2025''
             [Group ''June'' [Leaf ''Advanced'' ''/2025/june/advanced''] True,
              Group ''May'' [Leaf ''Intro'' ''/2025/may/intro''] True]
             True] True] True))"
proof -
  have "\<not> codeUnitCompare ''May'' ''June'' \<le> 0" by code_simp
  then show ?thesis
    using C8_tutorial_groups [of codeUnitCompare]
    by (simp add: mayGroup_def juneGroup_def)
qed

section \<open>Links within a sibling list\<close>

lemma siblingLinks_append: "siblingLinks (xs @ ys) = siblingLinks xs @ siblingLinks ys"
  by (simp add: siblingLinks_def map_filter_def)

lemma siblingLinks_Cons:
  "siblingLinks (x # xs) = (case itemLink x of None \<Rightarrow> siblingLinks xs | Some l \<Rightarrow> l # siblingLinks xs)"
  by (simp add: siblingLinks_def map_filter_def split: option.splits)

lemma siblingLinks_Nil: "siblingLinks [] = []"
  by (simp add: siblingLinks_def map_filter_def)

lemma set_siblingLinks: "l \<in> set (siblingLinks its) \<longleftrightarrow> list_ex (\<lambda>item. itemLink item = Some l) its"
  by (induction its) (auto simp: siblingLinks_Cons siblingLinks_Nil split: option.splits)

lemma mset_siblingLinks_insertSorted:
  "mset (siblingLinks (insertSorted cmp x xs)) = mset (siblingLinks (x # xs))"
  by (induction xs) (auto simp: siblingLinks_Cons split: option.splits)

lemma mset_siblingLinks_jsSort: "mset (siblingLinks (jsSort cmp xs)) = mset (siblingLinks xs)"
  unfolding jsSort_def
  by (induction xs) (auto simp: mset_siblingLinks_insertSorted siblingLinks_Cons split: option.splits)

lemma distinct_siblingLinks_jsSort:
  "distinct (siblingLinks (jsSort cmp xs)) \<longleftrightarrow> distinct (siblingLinks xs)"
  using mset_siblingLinks_jsSort [of cmp xs] by (rule mset_eq_imp_distinct_iff)

lemma list_all_jsSort: "list_all P (jsSort cmp xs) \<longleftrightarrow> list_all P xs"
  by (simp add: list_all_iff set_jsSort)

lemma list_ex_jsSort: "list_ex P (jsSort cmp xs) \<longleftrightarrow> list_ex P xs"
  by (simp add: list_ex_iff set_jsSort)

lemma isGroupNamed_Group: "isGroupNamed d y \<Longrightarrow> \<exists>its c. y = Group d its c"
  by (cases y) (auto simp: isGroupNamed_def)

lemma split_at_group:
  assumes "list_ex (isGroupNamed d) xs"
  shows "\<exists>its c after. dropWhile (\<lambda>item. \<not> isGroupNamed d item) xs = Group d its c # after \<and>
           xs = takeWhile (\<lambda>item. \<not> isGroupNamed d item) xs @ Group d its c # after"
proof -
  let ?P = "\<lambda>item. \<not> isGroupNamed d item"
  have "dropWhile ?P xs \<noteq> []" using assms by (auto simp: list_ex_iff dropWhile_eq_Nil_conv)
  then obtain y after where dw: "dropWhile ?P xs = y # after" by (cases "dropWhile ?P xs") auto
  then have "isGroupNamed d y" using hd_dropWhile [of ?P xs] by auto
  then obtain its c where "y = Group d its c" using isGroupNamed_Group by blast
  then show ?thesis using dw takeWhile_dropWhile_id [of ?P xs] by auto
qed

text \<open>The third equation of \<open>insertPageIntoStructure\<close>, with the group it recurses into.\<close>

lemma insertPage_directory:
  "\<exists>before its c after.
     (if \<not> list_ex (isGroupNamed (cleanName s)) parent
      then jsSort (sidebarItemSorter lc) (parent @ [Group (cleanName s) [] True]) else parent)
       = before @ Group (cleanName s) its c # after \<and>
     insertPageIntoStructure lc parent (s # n # others) l t =
       before @ Group (cleanName s) (insertPageIntoStructure lc its (n # others) l t) c # after"
proof -
  let ?d = "cleanName s"
  let ?parent' = "if \<not> list_ex (isGroupNamed ?d) parent
      then jsSort (sidebarItemSorter lc) (parent @ [Group ?d [] True]) else parent"
  have "list_ex (isGroupNamed ?d) ?parent'"
    by (auto simp: list_ex_jsSort isGroupNamed_def)
  from split_at_group [OF this] obtain its c after where
    dw: "dropWhile (\<lambda>item. \<not> isGroupNamed ?d item) ?parent' = Group ?d its c # after"
    and sp: "?parent' = takeWhile (\<lambda>item. \<not> isGroupNamed ?d item) ?parent' @ Group ?d its c # after"
    by blast
  have "insertPageIntoStructure lc parent (s # n # others) l t =
      takeWhile (\<lambda>item. \<not> isGroupNamed ?d item) ?parent'
        @ Group ?d (insertPageIntoStructure lc its (n # others) l t) c # after"
    using dw by (simp add: Let_def)
  then show ?thesis using sp by blast
qed


lemma linksKept_insertPage:
  "linksKept its \<Longrightarrow> linksKept (insertPageIntoStructure lc its segs l t)"
proof (induction segs arbitrary: its)
  case Nil
  then show ?case by simp
next
  case (Cons s rest)
  show ?case
  proof (cases rest)
    case Nil
    then show ?thesis using Cons.prems
      by (auto simp: linksKept_def distinct_siblingLinks_jsSort list_all_jsSort siblingLinks_append
          siblingLinks_Cons siblingLinks_Nil set_siblingLinks)
  next
    case (Cons n others)
    let ?parent' = "if \<not> list_ex (isGroupNamed (cleanName s)) its
        then jsSort (sidebarItemSorter lc) (its @ [Group (cleanName s) [] True]) else its"
    obtain before dirItems c after where
      sp: "?parent' = before @ Group (cleanName s) dirItems c # after"
      and res: "insertPageIntoStructure lc its (s # n # others) l t =
        before @ Group (cleanName s) (insertPageIntoStructure lc dirItems (n # others) l t) c # after"
      using insertPage_directory [of s its lc n others l t] by blast
    have kept': "linksKept ?parent'"
      using Cons.prems
      by (auto simp: linksKept_def distinct_siblingLinks_jsSort list_all_jsSort siblingLinks_append
          siblingLinks_Cons siblingLinks_Nil)
    then have parts: "distinct (siblingLinks (before @ Group (cleanName s) dirItems c # after))"
      "list_all uniqueLinks before" "list_all uniqueLinks after" "linksKept dirItems"
      unfolding sp by (auto simp: linksKept_def)
    have "linksKept (insertPageIntoStructure lc dirItems (n # others) l t)"
      using Cons.IH [OF parts(4)] \<open>rest = n # others\<close> by simp
    then show ?thesis
      using parts unfolding \<open>rest = n # others\<close> res
      by (auto simp: linksKept_def siblingLinks_append siblingLinks_Cons)
  qed
qed

lemma allLinks_append: "allLinks (xs @ ys) = allLinks xs \<union> allLinks ys"
  by (simp add: allLinks_def)

lemma allLinks_Cons: "allLinks (x # xs) = linksUnder x \<union> allLinks xs"
  by (simp add: allLinks_def)

lemma allLinks_Nil: "allLinks [] = {}"
  by (simp add: allLinks_def)

lemma allLinks_jsSort: "allLinks (jsSort cmp xs) = allLinks xs"
  by (simp add: allLinks_def set_jsSort)

lemma linksUnder_Group: "linksUnder (Group t its c) = allLinks its"
  by (simp add: allLinks_def)

lemma siblingLinks_subset_allLinks: "set (siblingLinks its) \<subseteq> allLinks its"
proof (induction its)
  case Nil
  then show ?case by (simp add: siblingLinks_Nil)
next
  case (Cons x xs)
  then show ?case
    by (cases x) (auto simp: siblingLinks_Cons allLinks_Cons)
qed

lemma allLinks_insertPage:
  "segs \<noteq> [] \<Longrightarrow> allLinks (insertPageIntoStructure lc its segs l t) = insert l (allLinks its)"
proof (induction segs arbitrary: its)
  case Nil
  then show ?case by simp
next
  case (Cons s rest)
  show ?case
  proof (cases rest)
    case Nil
    show ?thesis
    proof (cases "list_ex (\<lambda>item. itemLink item = Some l) its")
      case True
      then have "l \<in> allLinks its"
        using siblingLinks_subset_allLinks [of its] by (auto simp: set_siblingLinks)
      then show ?thesis using True Nil by auto
    next
      case False
      then show ?thesis using Nil
        by (simp add: allLinks_jsSort allLinks_append allLinks_Cons allLinks_Nil)
    qed
  next
    case (Cons n others)
    let ?parent' = "if \<not> list_ex (isGroupNamed (cleanName s)) its
        then jsSort (sidebarItemSorter lc) (its @ [Group (cleanName s) [] True]) else its"
    obtain before dirItems c after where
      sp: "?parent' = before @ Group (cleanName s) dirItems c # after"
      and res: "insertPageIntoStructure lc its (s # n # others) l t =
        before @ Group (cleanName s) (insertPageIntoStructure lc dirItems (n # others) l t) c # after"
      using insertPage_directory [of s its lc n others l t] by blast
    have same: "allLinks ?parent' = allLinks its"
      by (simp add: allLinks_jsSort allLinks_append allLinks_Cons allLinks_Nil)
    have "allLinks (insertPageIntoStructure lc dirItems (n # others) l t) = insert l (allLinks dirItems)"
      using Cons.IH [of dirItems] \<open>rest = n # others\<close> by simp
    then have "allLinks (insertPageIntoStructure lc its (s # n # others) l t) = insert l (allLinks ?parent')"
      unfolding res sp
      by (simp add: allLinks_append allLinks_Cons linksUnder_Group del: linksUnder.simps; blast)
    then show ?thesis unfolding \<open>rest = n # others\<close> same .
  qed
qed

lemma linksKept_insertTagPage: "linksKept its \<Longrightarrow> linksKept (insertTagPage lc p its)"
  by (simp add: insertTagPage_def Let_def linksKept_insertPage)

lemma linksKept_fold_insertTagPage:
  "linksKept its \<Longrightarrow> linksKept (fold (insertTagPage lc) pages its)"
  by (induction pages arbitrary: its) (auto simp: linksKept_insertTagPage)

lemma allLinks_insertTagPage:
  "allLinks (insertTagPage lc p its) =
     (if pathSegments (relativePath p) \<noteq> [] then insert (link p) (allLinks its) else allLinks its)"
  by (simp add: insertTagPage_def Let_def pathSegments_def allLinks_insertPage)

lemma allLinks_fold_insertTagPage:
  "allLinks (fold (insertTagPage lc) pages its) =
     allLinks its \<union> {link p | p. p \<in> set pages \<and> pathSegments (relativePath p) \<noteq> []}"
  by (induction pages arbitrary: its) (auto simp: allLinks_insertTagPage)

lemma uniqueLinks_tagsGroup:
  assumes "generateTagsSidebarGroup lc n b = Inr (Some g)"
  shows "uniqueLinks g"
proof -
  let ?tm = "scannedTags n b [] []"
  have g: "g = Group ''Tags''
      (map (\<lambda>tag. Group tag (fold (insertTagPage lc) (mapGet ?tm tag) []) True)
         (jsSort lc (map fst ?tm))) True"
    using assms
    by (auto simp: generateTagsSidebarGroup_def scanFilesForTags_scannedTags Let_def split: if_splits)
  have empty: "linksKept []" by (simp add: linksKept_def siblingLinks_Nil)
  have each: "\<And>tag. uniqueLinks (Group tag (fold (insertTagPage lc) (mapGet ?tm tag) []) True)"
    using linksKept_fold_insertTagPage [OF empty] by (simp add: linksKept_def)
  have none: "\<And>tags. siblingLinks (map (\<lambda>tag. Group tag (fold (insertTagPage lc) (mapGet ?tm tag) []) True) tags) = []"
  proof -
    fix tags show "siblingLinks (map (\<lambda>tag. Group tag (fold (insertTagPage lc) (mapGet ?tm tag) []) True) tags) = []"
      by (induction tags) (auto simp: siblingLinks_Cons siblingLinks_Nil)
  qed
  show ?thesis
    unfolding g using each by (simp add: none list_all_iff)
qed

lemma siblingLinks_concat: "siblingLinks (concat xss) = concat (map siblingLinks xss)"
  by (induction xss) (auto simp: siblingLinks_append siblingLinks_Nil)

lemma siblingLinks_sidebarEntryItems:
  "siblingLinks (sidebarEntryItems lc b en) =
     (if markdownFileEntry en then [getFileLink (fst en) b] else [])"
  by (auto simp: sidebarEntryItems_def markdownFileEntry_def fileItem_def Let_def
      siblingLinks_Cons siblingLinks_Nil split: sum.splits)

lemma concat_map_if: "concat (map (\<lambda>x. if P x then [f x] else []) xs) = map f (filter P xs)"
  by (induction xs) auto

lemma siblingLinks_structuralItems:
  "siblingLinks (structuralItems lc (Dir es) b) =
     map (\<lambda>en. getFileLink (fst en) (withTrailingSlash b))
       (filter markdownFileEntry (jsSort (entryCompare lc) es))"
  by (simp add: structuralItems_Dir siblingLinks_concat o_def siblingLinks_sidebarEntryItems
      concat_map_if)

lemma distinct_structural_links:
  "distinct (siblingLinks (structuralItems lc (Dir es) b)) \<longleftrightarrow>
   distinct (map (\<lambda>en. getFileLink (fst en) (withTrailingSlash b)) (filter markdownFileEntry es))"
proof -
  have "mset (map (\<lambda>en. getFileLink (fst en) (withTrailingSlash b))
            (filter markdownFileEntry (jsSort (entryCompare lc) es))) =
        mset (map (\<lambda>en. getFileLink (fst en) (withTrailingSlash b)) (filter markdownFileEntry es))"
    by (simp add: mset_jsSort)
  then show ?thesis
    unfolding siblingLinks_structuralItems by (rule mset_eq_imp_distinct_iff)
qed

lemma siblingLinks_topLevelGroups: "siblingLinks (topLevelGroups lc n b) = []"
proof (cases n)
  case (Dir es)
  have "\<And>en. siblingLinks (topLevelEntryItems lc b en) = []"
    by (auto simp: topLevelEntryItems_def Let_def siblingLinks_Cons siblingLinks_Nil split: sum.splits)
  then have "siblingLinks (concat (map (topLevelEntryItems lc b) es)) = []"
    by (simp add: siblingLinks_concat o_def)
  then have "mset (siblingLinks (topLevelGroups lc (Dir es) b)) = {#}"
    by (simp add: topLevelGroups_Dir mset_siblingLinks_jsSort)
  then show ?thesis using Dir by simp
qed (simp_all add: topLevelGroups_not_Dir siblingLinks_Nil)

text \<open>
  Claim C1, as amended. In the group \<^verbatim>\<open>Tags\<close> no two items of one child list carry the
  same link, at any depth. The top-level list of the navigation model holds groups
  only, which carry no link. In a group derived from a directory, the leaves carry the
  links of the markdown files that the walk reads in that directory, each link as
  often as files resolve to it: two leaves carry the same link exactly when two such
  files resolve to the same link. When the collation is consistent and every entry of
  the directory can be stat'ed, the links stand in the order of the walk.
\<close>

theorem C1_sibling_links:
  "(\<forall>g. generateTagsSidebarGroup lc scanRoot baseUrl = Inr (Some g) \<longrightarrow> uniqueLinks g) \<and>
   (\<forall>items. generateSidebar lc scanRoot baseUrl includeTags = Inr [(''/'', items)] \<longrightarrow>
      siblingLinks items = []) \<and>
   (\<forall>items. generateSidebarItems lc (Dir es) baseUrl = Inr items \<longrightarrow>
      mset (siblingLinks items) =
        mset (map (\<lambda>en. getFileLink (fst en) (withTrailingSlash baseUrl))
               (filter markdownFileEntry es)) \<and>
      (distinct (siblingLinks items) \<longleftrightarrow>
       distinct (map (\<lambda>en. getFileLink (fst en) (withTrailingSlash baseUrl))
                  (filter markdownFileEntry es))) \<and>
      (consistentCompare lc \<and> (\<forall>en\<in>set es. existsSync (snd en)) \<longrightarrow>
         siblingLinks items =
           map (\<lambda>en. getFileLink (fst en) (withTrailingSlash baseUrl))
             (filter markdownFileEntry (jsSort (entryCompare lc) es))))"
proof (intro conjI allI impI)
  fix g assume "generateTagsSidebarGroup lc scanRoot baseUrl = Inr (Some g)"
  then show "uniqueLinks g" by (rule uniqueLinks_tagsGroup)
next
  fix items
  assume run: "generateSidebar lc scanRoot baseUrl includeTags = Inr [(''/'', items)]"
  have top: "siblingLinks (topLevelGroups lc scanRoot baseUrl) = []"
    by (rule siblingLinks_topLevelGroups)
  have "\<And>g. generateTagsSidebarGroup lc scanRoot baseUrl = Inr (Some g) \<Longrightarrow> itemLink g = None"
    by (auto simp: generateTagsSidebarGroup_def Let_def split: sum.splits prod.splits if_splits)
  then show "siblingLinks items = []"
    using run top
    by (auto simp: generateSidebar_def Let_def siblingLinks_append siblingLinks_Cons siblingLinks_Nil
        split: if_splits sum.splits option.splits)
next
  fix items assume "generateSidebarItems lc (Dir es) baseUrl = Inr items"
  then have items: "items = structuralItems lc (Dir es) baseUrl"
    by (simp add: generateSidebarItems_structuralItems)
  show "siblingLinks items =
      map (\<lambda>en. getFileLink (fst en) (withTrailingSlash baseUrl))
        (filter markdownFileEntry (jsSort (entryCompare lc) es))"
    unfolding items by (rule siblingLinks_structuralItems)
  show "mset (siblingLinks items) =
      mset (map (\<lambda>en. getFileLink (fst en) (withTrailingSlash baseUrl))
             (filter markdownFileEntry es))"
    unfolding items siblingLinks_structuralItems by (simp add: mset_jsSort)
  show "distinct (siblingLinks items) \<longleftrightarrow>
      distinct (map (\<lambda>en. getFileLink (fst en) (withTrailingSlash baseUrl))
                 (filter markdownFileEntry es))"
    unfolding items by (rule distinct_structural_links)
qed

theorem C1_sibling_links_witness:
  "uniqueLinks (Group ''Tags''
     [Group ''tutorial''
        [Group ''2025''
           [Group ''June'' [Leaf ''Advanced'' ''/2025/june/advanced''] True,
            Group ''May'' [Leaf ''Intro'' ''/2025/may/intro''] True]
           True] True] True) \<and>
   distinct (siblingLinks
     [Leaf ''Home'' ''/guide/'', Group ''Sub'' [Leaf ''X'' ''/guide/sub/x''] True,
      Leaf ''Setup'' ''/guide/setup'']) \<and>
   siblingLinks
     [Leaf ''Home'' ''/guide/'', Group ''Sub'' [Leaf ''X'' ''/guide/sub/x''] True,
      Leaf ''Setup'' ''/guide/setup''] = [''/guide/'', ''/guide/setup'']"
proof -
  have tagsRun: "generateTagsSidebarGroup codeUnitCompare (tutorialTree [mayDir, juneDir]) ''/'' =
     Inr (Some (Group ''Tags''
       [Group ''tutorial''
          [Group ''2025''
             [Group ''June'' [Leaf ''Advanced'' ''/2025/june/advanced''] True,
              Group ''May'' [Leaf ''Intro'' ''/2025/may/intro''] True]
             True] True] True))"
    by code_simp
  have walk: "generateSidebarItems codeUnitCompare (Dir guideEntries) ''/guide/'' =
      Inr [Leaf ''Home'' ''/guide/'', Group ''Sub'' [Leaf ''X'' ''/guide/sub/x''] True,
           Leaf ''Setup'' ''/guide/setup'']"
    by code_simp
  have files: "distinct (map (\<lambda>en. getFileLink (fst en) (withTrailingSlash ''/guide/''))
      (filter markdownFileEntry guideEntries))"
    by code_simp
  note c = C1_sibling_links [of codeUnitCompare "tutorialTree [mayDir, juneDir]" "''/''" True
      guideEntries]
  have first: "uniqueLinks (Group ''Tags''
     [Group ''tutorial''
        [Group ''2025''
           [Group ''June'' [Leaf ''Advanced'' ''/2025/june/advanced''] True,
            Group ''May'' [Leaf ''Intro'' ''/2025/may/intro''] True]
           True] True] True)"
    using c tagsRun by blast
  note d = C1_sibling_links [of codeUnitCompare "tutorialTree [mayDir, juneDir]" "''/guide/''" True
      guideEntries]
  have second: "distinct (siblingLinks
     [Leaf ''Home'' ''/guide/'', Group ''Sub'' [Leaf ''X'' ''/guide/sub/x''] True,
      Leaf ''Setup'' ''/guide/setup''])"
    using d walk files by blast
  have stat: "\<forall>en\<in>set guideEntries. existsSync (snd en)"
    by (simp add: guideEntries_def)
  have order: "map (\<lambda>en. getFileLink (fst en) (withTrailingSlash ''/guide/''))
      (filter markdownFileEntry (jsSort (entryCompare codeUnitCompare) guideEntries)) =
      [''/guide/'', ''/guide/setup'']"
    by code_simp
  have third: "siblingLinks
     [Leaf ''Home'' ''/guide/'', Group ''Sub'' [Leaf ''X'' ''/guide/sub/x''] True,
      Leaf ''Setup'' ''/guide/setup''] = [''/guide/'', ''/guide/setup'']"
    using d walk consistent_codeUnitCompare stat order by metis
  show ?thesis using first second third by blast
qed

text \<open>
  Claim C1 as the specification states it fails for the groups derived from
  directories: a directory that holds \<^verbatim>\<open>index.md\<close> and \<^verbatim>\<open>readme.md\<close> gives a group with
  two leaves that carry the link of the directory.
\<close>

theorem C1_index_readme_counterexample:
  "generateSidebar codeUnitCompare
     (Dir [(''guide'', Dir [(''index.md'', File (Some plainPage)),
                            (''readme.md'', File (Some plainPage))])]) ''/'' True
     = Inr [(''/'', [Group ''Guide'' [Leaf ''Index'' ''/guide/'', Leaf ''Readme'' ''/guide/''] True])] \<and>
   \<not> uniqueLinks (Group ''Guide'' [Leaf ''Index'' ''/guide/'', Leaf ''Readme'' ''/guide/''] True)"
  by code_simp

section \<open>Files directly in the content root\<close>

lemma trim_trim: "trim (trim s) = trim s"
proof -
  define x where "x = dropWhile isSpace s"
  define y where "y = dropWhile isSpace (rev x)"
  have u: "trim s = rev y" by (simp add: trim_def x_def y_def)
  have "rev x = takeWhile isSpace (rev x) @ y"
    unfolding y_def by simp
  then have "rev (rev x) = rev (takeWhile isSpace (rev x) @ y)" by (rule arg_cong)
  then have x: "x = rev y @ rev (takeWhile isSpace (rev x))" by simp
  have front: "dropWhile isSpace (rev y) = rev y"
  proof (cases "y = []")
    case True
    then show ?thesis by simp
  next
    case False
    then have "hd x = hd (rev y)" using x by (metis hd_append2 rev_is_Nil_conv)
    moreover have "x \<noteq> []" using False x by auto
    then have "\<not> isSpace (hd x)" unfolding x_def by (rule hd_dropWhile)
    ultimately show ?thesis by (simp add: dropWhile_eq_self_iff)
  qed
  have rear: "dropWhile isSpace y = y" unfolding y_def by simp
  show ?thesis
    unfolding u by (simp add: trim_def front rear)
qed

lemma fileTagsOf_trimmed: "t \<in> set (fileTagsOf fm) \<Longrightarrow> trim t = t"
  by (auto simp: fileTagsOf_def trim_trim split: tagsValue.splits if_splits)

lemma splitOn_has_segment:
  "\<exists>c\<in>set s. c \<noteq> d \<Longrightarrow> filter (\<lambda>w. w \<noteq> []) (splitOn d s) \<noteq> []"
proof (induction s)
  case Nil
  then show ?case by simp
next
  case (Cons c cs)
  then show ?case by (cases "splitOn d cs") (auto split: if_splits)
qed

lemma joinPath_snoc: "\<exists>pre. joinPath (rel @ [entry]) = pre @ entry"
  by (cases rel) (auto simp: joinPath_def)

lemma md_last_char:
  assumes "endsWith (toLowerCase entry) ''.md''"
  shows "entry \<noteq> [] \<and> last entry \<noteq> CHR ''/'' \<and> last entry \<noteq> CHR 0x5C"
proof -
  let ?s = "toLowerCase entry"
  have len: "length ''.md'' \<le> length ?s"
    and dr: "drop (length ?s - length ''.md'') ?s = ''.md''"
    using assms unfolding endsWith_def by blast+
  have ne: "entry \<noteq> []" using len by (auto simp: toLowerCase_def)
  have "last (drop (length ?s - length ''.md'') ?s) = last ?s"
    using len by (intro last_drop) simp
  then have "last ?s = CHR ''d''" using dr by simp
  then have d: "toLowerChar (last entry) = CHR ''d''"
    using ne by (simp add: toLowerCase_def last_map)
  have "toLowerChar CHR ''/'' \<noteq> CHR ''d''" "toLowerChar (CHR 0x5C) \<noteq> CHR ''d''"
    by code_simp+
  then show ?thesis using ne d by auto
qed

lemma md_path_has_segment:
  assumes "endsWith (toLowerCase entry) ''.md''"
  shows "pathSegments (relativePathOf rel entry) \<noteq> []"
proof -
  from md_last_char [OF assms] have ne: "entry \<noteq> []"
    and l1: "last entry \<noteq> CHR ''/''" and l2: "last entry \<noteq> CHR 0x5C" by auto
  obtain pre where j: "joinPath (rel @ [entry]) = pre @ entry" using joinPath_snoc by blast
  have "last entry \<in> set (relativePathOf rel entry)"
    using ne l2 unfolding relativePathOf_def j by (auto simp: image_iff intro!: bexI [of _ "last entry"])
  then have "\<exists>c\<in>set (relativePathOf rel entry). c \<noteq> CHR ''/''" using l1 by blast
  then show ?thesis unfolding pathSegments_def by (rule splitOn_has_segment)
qed

lemma fold_preserves:
  "(\<And>x s. x \<in> set xs \<Longrightarrow> Q s \<Longrightarrow> Q (f x s)) \<Longrightarrow> Q s \<Longrightarrow> Q (fold f xs s)"
  by (induction xs arbitrary: s) auto

lemma addFileTags_preserves:
  assumes step: "\<And>p t s. pathSegments (relativePath p) \<noteq> [] \<Longrightarrow> Q s \<Longrightarrow> Q (addTagPage p t s)"
    and md: "endsWith (toLowerCase entry) ''.md''" and q: "Q tm"
  shows "Q (addFileTags fm entry b rel tm)"
proof -
  have "pathSegments (relativePath (pageOf fm entry b rel)) \<noteq> []"
    using md_path_has_segment [OF md] by (simp add: pageOf_def)
  then have "Q (fold (addTagPage (pageOf fm entry b rel)) (fileTagsOf fm) tm)"
    using step q by (intro fold_preserves [where Q = Q]) auto
  then show ?thesis using q by (simp add: addFileTags_pageOf)
qed

lemma scannedTags_preserves:
  assumes step: "\<And>p t s. pathSegments (relativePath p) \<noteq> [] \<Longrightarrow> Q s \<Longrightarrow> Q (addTagPage p t s)"
  shows "Q tm \<Longrightarrow> Q (scannedTags n b tm rel)"
proof (induction n arbitrary: b tm rel rule: declaresTags.induct)
  case (1 es)
  have "Q (fold (scanEntry (withTrailingSlash b) rel) es tm)"
  proof (rule fold_preserves)
    show "Q tm" by (rule "1.prems")
  next
    fix en s assume en: "en \<in> set es" and s: "Q s"
    show "Q (scanEntry (withTrailingSlash b) rel en s)"
    proof (cases "snd en")
      case (File c)
      then show ?thesis using s addFileTags_preserves [OF step _ s]
        by (cases c) (auto simp: scanEntry_def)
    next
      case (Dir ds)
      then show ?thesis using "1.IH" [OF en s] s by (auto simp: scanEntry_def)
    qed (auto simp: scanEntry_def scannedTags_not_Dir s)
  qed
  then show ?case by (simp add: scannedTags_Dir)
qed (simp_all add: scannedTags_not_Dir)

lemma linkRecorded_addTagPage: "linkRecorded tm t l \<Longrightarrow> linkRecorded (addTagPage p t' tm) t l"
  by (auto simp: linkRecorded_def mapGet_addTagPage)

lemma linkRecorded_addTagPage_new: "linkRecorded (addTagPage p t tm) (trim t) (link p)"
  by (auto simp: linkRecorded_def mapGet_addTagPage list_ex_iff)

lemma pagesHaveSegments_addTagPage:
  "pathSegments (relativePath p) \<noteq> [] \<Longrightarrow> pagesHaveSegments tm \<Longrightarrow>
   pagesHaveSegments (addTagPage p t tm)"
  by (auto simp: pagesHaveSegments_def mapGet_addTagPage)

lemma linkRecorded_fold_addTagPage:
  "t \<in> set ts \<Longrightarrow> linkRecorded (fold (addTagPage p) ts tm) (trim t) (link p)"
proof (induction ts arbitrary: tm)
  case Nil
  then show ?case by simp
next
  case (Cons a ts)
  show ?case
  proof (cases "t \<in> set ts")
    case True
    then show ?thesis using Cons.IH by simp
  next
    case False
    then have "a = t" using Cons.prems by simp
    have "linkRecorded (fold (addTagPage p) ts (addTagPage p t tm)) (trim t) (link p)"
      by (rule fold_preserves [where Q = "\<lambda>s. linkRecorded s (trim t) (link p)"])
         (auto simp: linkRecorded_addTagPage linkRecorded_addTagPage_new)
    then show ?thesis using \<open>a = t\<close> by simp
  qed
qed

lemma linkRecorded_addFileTags:
  assumes "t \<in> set (fileTagsOf fm)"
  shows "linkRecorded (addFileTags fm entry b rel tm) t (getFileLink entry b)"
proof -
  have "fileTagsOf fm \<noteq> []" using assms by auto
  moreover have "link (pageOf fm entry b rel) = getFileLink entry b" by (simp add: pageOf_def)
  ultimately show ?thesis
    using linkRecorded_fold_addTagPage [OF assms, of "pageOf fm entry b rel" tm]
      fileTagsOf_trimmed [OF assms]
    by (simp add: addFileTags_pageOf)
qed

lemma scanEntry_preserves:
  assumes step: "\<And>p t s. pathSegments (relativePath p) \<noteq> [] \<Longrightarrow> Q s \<Longrightarrow> Q (addTagPage p t s)"
    and s: "Q s"
  shows "Q (scanEntry b rel en s)"
proof (cases "snd en")
  case (File c)
  then show ?thesis using s addFileTags_preserves [OF step _ s]
    by (cases c) (auto simp: scanEntry_def)
next
  case (Dir ds)
  then show ?thesis using scannedTags_preserves [OF step s] s by (auto simp: scanEntry_def)
qed (auto simp: scanEntry_def scannedTags_not_Dir s)

lemma root_file_recorded:
  assumes mem: "(name, File (Some fm)) \<in> set es"
    and vis: "\<not> startsWith name ''.''" and md: "endsWith (toLowerCase name) ''.md''"
    and t: "t \<in> set (fileTagsOf fm)"
  shows "linkRecorded (scannedTags (Dir es) b [] []) t (getFileLink name (withTrailingSlash b))"
proof -
  let ?b = "withTrailingSlash b"
  let ?Q = "\<lambda>s. linkRecorded s t (getFileLink name ?b)"
  obtain xs ys where es: "es = xs @ (name, File (Some fm)) # ys"
    using mem by (meson split_list)
  have here: "scanEntry ?b [] (name, File (Some fm)) s = addFileTags fm name ?b [] s" for s
    using vis md by (simp add: scanEntry_def)
  define mid where "mid = scanEntry ?b [] (name, File (Some fm)) (fold (scanEntry ?b []) xs [])"
  have atFile: "?Q mid"
    unfolding mid_def here by (rule linkRecorded_addFileTags [OF t])
  have "?Q (fold (scanEntry ?b []) ys mid)"
  proof (rule fold_preserves [where Q = ?Q])
    show "?Q mid" by (rule atFile)
  next
    fix en s assume s: "?Q s"
    show "?Q (scanEntry ?b [] en s)"
      by (rule scanEntry_preserves [where Q = ?Q, OF _ s]) (rule linkRecorded_addTagPage)
  qed
  then show ?thesis by (simp add: scannedTags_Dir es mid_def)
qed

lemma scanned_pagesHaveSegments: "pagesHaveSegments (scannedTags n b [] [])"
proof (rule scannedTags_preserves [where Q = pagesHaveSegments])
  show "pagesHaveSegments []" by (simp add: pagesHaveSegments_def mapGet_def)
qed (rule pagesHaveSegments_addTagPage)

lemma in_set_mapI: "x \<in> set xs \<Longrightarrow> f x \<in> set (map f xs)"
  by simp

lemma tag_group_holds_link:
  assumes rec: "linkRecorded (scannedTags n b [] []) t l"
  shows "\<exists>tagItems tagGroup.
           generateTagsSidebarGroup lc n b = Inr (Some (Group ''Tags'' tagItems True)) \<and>
           tagGroup \<in> set tagItems \<and> itemText tagGroup = t \<and> l \<in> linksUnder tagGroup"
proof -
  let ?tm = "scannedTags n b [] []"
  let ?group = "\<lambda>tag. Group tag (fold (insertTagPage lc) (mapGet ?tm tag) []) True"
  obtain p where p: "p \<in> set (mapGet ?tm t)" "link p = l"
    using rec by (auto simp: linkRecorded_def list_ex_iff)
  have seg: "pathSegments (relativePath p) \<noteq> []"
    using scanned_pagesHaveSegments [of n b] p(1) by (auto simp: pagesHaveSegments_def list_all_iff)
  have "mapHas ?tm t"
  proof (rule ccontr)
    assume "\<not> mapHas ?tm t"
    then have "mapGet ?tm t = []" by (rule mapGet_missing)
    then show False using p(1) by simp
  qed
  then have key: "t \<in> set (map fst ?tm)" by (simp only: mapHas_iff_key)
  then have ne: "?tm \<noteq> []" by auto
  have gen: "generateTagsSidebarGroup lc n b =
      Inr (Some (Group ''Tags'' (map ?group (jsSort lc (map fst ?tm))) True))"
    using ne by (simp add: generateTagsSidebarGroup_def scanFilesForTags_scannedTags Let_def)
  have mem: "?group t \<in> set (map ?group (jsSort lc (map fst ?tm)))"
  proof -
    have "t \<in> set (jsSort lc (map fst ?tm))" using key by (simp only: set_jsSort)
    then show ?thesis by (rule in_set_mapI [where f = ?group])
  qed
  have "l \<in> allLinks (fold (insertTagPage lc) (mapGet ?tm t) [])"
    using p seg by (auto simp: allLinks_fold_insertTagPage)
  then have "l \<in> linksUnder (?group t)" by (simp only: linksUnder_Group)
  then show ?thesis using gen mem by (intro exI [of _ "map ?group (jsSort lc (map fst ?tm))"] exI [of _ "?group t"]) simp
qed

lemma topLevelEntryItems_not_directory:
  "statSync (snd en) \<noteq> Inr IsDirectory \<Longrightarrow> topLevelEntryItems lc b en = []"
  by (auto simp: topLevelEntryItems_def split: sum.splits)

lemma concat_map_filter_Nil:
  "(\<And>x. x \<in> set xs \<Longrightarrow> \<not> P x \<Longrightarrow> f x = []) \<Longrightarrow> concat (map f (filter P xs)) = concat (map f xs)"
  by (induction xs) auto

lemma allLeaves_append: "allLeaves (xs @ ys) = allLeaves xs \<union> allLeaves ys"
  by (simp add: allLeaves_def)

lemma allLeaves_Cons: "allLeaves (x # xs) = leavesUnder x \<union> allLeaves xs"
  by (simp add: allLeaves_def)

lemma allLeaves_Nil: "allLeaves [] = {}"
  by (simp add: allLeaves_def)

lemma allLeaves_jsSort: "allLeaves (jsSort cmp xs) = allLeaves xs"
  by (simp add: allLeaves_def set_jsSort)

lemma leavesUnder_Group: "leavesUnder (Group t its c) = allLeaves its"
  by (simp add: allLeaves_def)

lemma allLeaves_insertPage:
  "allLeaves its \<subseteq> allLeaves (insertPageIntoStructure lc its segs l t) \<and>
   (segs \<noteq> [] \<longrightarrow> l \<notin> allLinks its \<longrightarrow>
      (t, l) \<in> allLeaves (insertPageIntoStructure lc its segs l t))"
proof (induction segs arbitrary: its)
  case Nil
  then show ?case by simp
next
  case (Cons s rest)
  show ?case
  proof (cases rest)
    case Nil
    show ?thesis
    proof (cases "list_ex (\<lambda>item. itemLink item = Some l) its")
      case True
      then have "l \<in> allLinks its"
        using siblingLinks_subset_allLinks [of its] by (auto simp: set_siblingLinks)
      then show ?thesis using True Nil by auto
    next
      case False
      then show ?thesis using Nil
        by (auto simp: allLeaves_jsSort allLeaves_append allLeaves_Cons allLeaves_Nil)
    qed
  next
    case (Cons n others)
    let ?parent' = "if \<not> list_ex (isGroupNamed (cleanName s)) its
        then jsSort (sidebarItemSorter lc) (its @ [Group (cleanName s) [] True]) else its"
    obtain before dirItems c after where
      sp: "?parent' = before @ Group (cleanName s) dirItems c # after"
      and res: "insertPageIntoStructure lc its (s # n # others) l t =
        before @ Group (cleanName s) (insertPageIntoStructure lc dirItems (n # others) l t) c # after"
      using insertPage_directory [of s its lc n others l t] by blast
    have same: "allLeaves ?parent' = allLeaves its"
      by (simp add: allLeaves_jsSort allLeaves_append allLeaves_Cons allLeaves_Nil)
    have sameLinks: "allLinks ?parent' = allLinks its"
      by (simp add: allLinks_jsSort allLinks_append allLinks_Cons allLinks_Nil)
    have sub: "allLinks dirItems \<subseteq> allLinks its"
      unfolding sameLinks [symmetric] sp
      by (simp add: allLinks_append allLinks_Cons linksUnder_Group del: linksUnder.simps; blast)
    have ih: "allLeaves dirItems \<subseteq> allLeaves (insertPageIntoStructure lc dirItems (n # others) l t)"
      "l \<notin> allLinks dirItems \<Longrightarrow>
         (t, l) \<in> allLeaves (insertPageIntoStructure lc dirItems (n # others) l t)"
      using Cons.IH [of dirItems] \<open>rest = n # others\<close> by auto
    have a: "allLeaves ?parent' \<subseteq> allLeaves (insertPageIntoStructure lc its (s # n # others) l t)"
      unfolding res sp using ih(1)
      by (simp add: allLeaves_append allLeaves_Cons leavesUnder_Group del: leavesUnder.simps; blast)
    have b: "(t, l) \<in> allLeaves (insertPageIntoStructure lc its (s # n # others) l t)"
      if "l \<notin> allLinks its"
    proof -
      have "l \<notin> allLinks dirItems" using that sub by blast
      from ih(2) [OF this] show ?thesis
        unfolding res
        by (simp add: allLeaves_append allLeaves_Cons leavesUnder_Group del: leavesUnder.simps)
    qed
    show ?thesis unfolding \<open>rest = n # others\<close> using a b same by simp
  qed
qed

lemma allLeaves_insertTagPage: "allLeaves its \<subseteq> allLeaves (insertTagPage lc p its)"
  using allLeaves_insertPage [of its lc] by (simp add: insertTagPage_def Let_def)

lemma allLeaves_fold_insertTagPage:
  "allLeaves its \<subseteq> allLeaves (fold (insertTagPage lc) pages its)"
proof (induction pages arbitrary: its)
  case Nil
  then show ?case by simp
next
  case (Cons p pages)
  show ?case using allLeaves_insertTagPage [of its lc p] Cons.IH [of "insertTagPage lc p its"]
    by auto
qed

lemma leaf_of_page:
  assumes pages: "pages = pre @ p # post"
    and fresh: "link p \<notin> link ` set pre"
    and seg: "pathSegments (relativePath p) \<noteq> []"
  shows "(label p, link p) \<in> allLeaves (fold (insertTagPage lc) pages [])"
proof -
  let ?mid = "fold (insertTagPage lc) pre []"
  have "link p \<notin> allLinks ?mid"
    using fresh by (auto simp: allLinks_fold_insertTagPage allLinks_Nil)
  then have "(label p, link p) \<in> allLeaves (insertTagPage lc p ?mid)"
    using seg allLeaves_insertPage [of ?mid lc "pathSegments (relativePath p)" "link p" "label p"]
    by (simp add: insertTagPage_def Let_def pathSegments_def)
  then show ?thesis
    unfolding pages using allLeaves_fold_insertTagPage [of "insertTagPage lc p ?mid" lc post]
    by auto
qed

lemma distinct_links_addTagPage:
  "distinct (map link (mapGet s k)) \<Longrightarrow> distinct (map link (mapGet (addTagPage p t s) k))"
  by (auto simp: mapGet_addTagPage list_ex_iff)

lemma scanned_distinct_links: "\<forall>k. distinct (map link (mapGet (scannedTags n b [] []) k))"
proof (rule scannedTags_preserves [where Q = "\<lambda>s. \<forall>k. distinct (map link (mapGet s k))"])
  show "\<forall>k. distinct (map link (mapGet [] k))" by (simp add: mapGet_def)
qed (simp add: distinct_links_addTagPage)

lemma page_kept_addTagPage:
  "p \<in> set (mapGet s k) \<Longrightarrow> p \<in> set (mapGet (addTagPage q t s) k)"
  by (auto simp: mapGet_addTagPage)

lemma page_added_fold_addTagPage:
  "t \<in> set ts \<Longrightarrow> \<not> linkRecorded s (trim t) (link p) \<Longrightarrow>
   p \<in> set (mapGet (fold (addTagPage p) ts s) (trim t))"
proof (induction ts arbitrary: s)
  case Nil
  then show ?case by simp
next
  case (Cons a ts)
  show ?case
  proof (cases "trim a = trim t")
    case True
    have "p \<in> set (mapGet (addTagPage p a s) (trim t))"
      using Cons.prems(2) True by (simp add: mapGet_addTagPage linkRecorded_def)
    then have "p \<in> set (mapGet (fold (addTagPage p) ts (addTagPage p a s)) (trim t))"
      by (rule fold_preserves [where Q = "\<lambda>s. p \<in> set (mapGet s (trim t))", rotated])
         (rule page_kept_addTagPage)
    then show ?thesis by simp
  next
    case False
    then have "t \<in> set ts" using Cons.prems(1) by auto
    moreover have "\<not> linkRecorded (addTagPage p a s) (trim t) (link p)"
      using Cons.prems(2) False by (simp add: linkRecorded_def mapGet_addTagPage)
    ultimately show ?thesis using Cons.IH by simp
  qed
qed

lemma root_file_page:
  assumes vis: "\<not> startsWith name ''.''" and md: "endsWith (toLowerCase name) ''.md''"
    and t: "t \<in> set (fileTagsOf fm)"
    and fresh: "\<not> linkRecorded (scannedTags (Dir xs) b [] []) t (getFileLink name (withTrailingSlash b))"
  shows "pageOf fm name (withTrailingSlash b) [] \<in>
           set (mapGet (scannedTags (Dir (xs @ (name, File (Some fm)) # ys)) b [] []) t)"
proof -
  let ?b = "withTrailingSlash b"
  let ?p = "pageOf fm name ?b []"
  let ?Q = "\<lambda>s. ?p \<in> set (mapGet s t)"
  let ?s0 = "fold (scanEntry ?b []) xs []"
  have here: "scanEntry ?b [] (name, File (Some fm)) s = addFileTags fm name ?b [] s" for s
    using vis md by (simp add: scanEntry_def)
  have lp: "link ?p = getFileLink name ?b" by (simp add: pageOf_def)
  have tt: "trim t = t" by (rule fileTagsOf_trimmed [OF t])
  have ne: "fileTagsOf fm \<noteq> []" using t by auto
  have "\<not> linkRecorded ?s0 (trim t) (link ?p)"
    using fresh by (simp add: scannedTags_Dir lp tt)
  from page_added_fold_addTagPage [OF t this]
  have atFile: "?Q (scanEntry ?b [] (name, File (Some fm)) ?s0)"
    unfolding here by (simp add: addFileTags_pageOf ne tt)
  have "?Q (fold (scanEntry ?b []) ys (scanEntry ?b [] (name, File (Some fm)) ?s0))"
  proof (rule fold_preserves [where Q = ?Q])
    show "?Q (scanEntry ?b [] (name, File (Some fm)) ?s0)" by (rule atFile)
  next
    fix en s assume s: "?Q s"
    show "?Q (scanEntry ?b [] en s)"
      by (rule scanEntry_preserves [where Q = ?Q, OF _ s]) (rule page_kept_addTagPage)
  qed
  then show ?thesis by (simp add: scannedTags_Dir)
qed

lemma tag_group_holds_leaf:
  assumes p: "p \<in> set (mapGet (scannedTags n b [] []) t)"
  shows "\<exists>tagItems tagGroup.
           generateTagsSidebarGroup lc n b = Inr (Some (Group ''Tags'' tagItems True)) \<and>
           tagGroup \<in> set tagItems \<and> itemText tagGroup = t \<and>
           link p \<in> linksUnder tagGroup \<and> (label p, link p) \<in> leavesUnder tagGroup"
proof -
  let ?tm = "scannedTags n b [] []"
  let ?group = "\<lambda>tag. Group tag (fold (insertTagPage lc) (mapGet ?tm tag) []) True"
  have seg: "pathSegments (relativePath p) \<noteq> []"
    using scanned_pagesHaveSegments [of n b] p by (auto simp: pagesHaveSegments_def list_all_iff)
  obtain pre post where sp: "mapGet ?tm t = pre @ p # post"
    using p by (meson split_list)
  have "distinct (map link (mapGet ?tm t))" using scanned_distinct_links [of n b] by blast
  then have fresh: "link p \<notin> link ` set pre" unfolding sp by auto
  have "mapHas ?tm t"
  proof (rule ccontr)
    assume "\<not> mapHas ?tm t"
    then have "mapGet ?tm t = []" by (rule mapGet_missing)
    then show False using p by simp
  qed
  then have key: "t \<in> set (map fst ?tm)" by (simp only: mapHas_iff_key)
  then have ne: "?tm \<noteq> []" by auto
  have gen: "generateTagsSidebarGroup lc n b =
      Inr (Some (Group ''Tags'' (map ?group (jsSort lc (map fst ?tm))) True))"
    using ne by (simp add: generateTagsSidebarGroup_def scanFilesForTags_scannedTags Let_def)
  have mem: "?group t \<in> set (map ?group (jsSort lc (map fst ?tm)))"
  proof -
    have "t \<in> set (jsSort lc (map fst ?tm))" using key by (simp only: set_jsSort)
    then show ?thesis by (rule in_set_mapI [where f = ?group])
  qed
  have "link p \<in> allLinks (fold (insertTagPage lc) (mapGet ?tm t) [])"
    using p seg by (auto simp: allLinks_fold_insertTagPage)
  then have l: "link p \<in> linksUnder (?group t)" by (simp only: linksUnder_Group)
  have "(label p, link p) \<in> allLeaves (fold (insertTagPage lc) (mapGet ?tm t) [])"
    by (rule leaf_of_page [OF sp fresh seg])
  then have lf: "(label p, link p) \<in> leavesUnder (?group t)" by (simp only: leavesUnder_Group)
  show ?thesis using gen mem l lf
    by (intro exI [of _ "map ?group (jsSort lc (map fst ?tm))"] exI [of _ "?group t"]) simp
qed

text \<open>
  Claim C10, as amended. Let a markdown file lie directly in the content root, under a
  name that is not hidden, with front matter that can be read and that declares the
  tag \<open>t\<close>. The entry of the file adds nothing to the top-level groups: they are the
  groups of the subdirectories alone, and none of them is a leaf. With the tags
  included, the navigation model ends with the group \<^verbatim>\<open>Tags\<close>, which holds a group
  named \<open>t\<close>, and a leaf under that group carries the link of the file. When the scan
  has recorded no page with that link under \<open>t\<close> before it reaches the file (the
  entries \<open>before\<close> are those that the directory listing gives first), the file itself
  is a leaf under that group: a leaf with the display text and the link of the file.
\<close>

theorem C10_root_files:
  assumes "es = before @ (name, File (Some fm)) # after"
    and "\<not> startsWith name ''.''" and "endsWith (toLowerCase name) ''.md''"
    and "t \<in> set (fileTagsOf fm)"
  shows "topLevelEntryItems lc baseUrl (name, File (Some fm)) = [] \<and>
         topLevelGroups lc (Dir es) baseUrl =
           topLevelGroups lc (Dir (filter (\<lambda>en. statSync (snd en) = Inr IsDirectory) es)) baseUrl \<and>
         siblingLinks (topLevelGroups lc (Dir es) baseUrl) = [] \<and>
         (\<exists>tagItems tagGroup.
            generateSidebar lc (Dir es) baseUrl True =
              Inr [(''/'', topLevelGroups lc (Dir es) baseUrl @ [Group ''Tags'' tagItems True])] \<and>
            tagGroup \<in> set tagItems \<and> itemText tagGroup = t \<and>
            getFileLink name (withTrailingSlash baseUrl) \<in> linksUnder tagGroup \<and>
            (\<not> linkRecorded (scannedTags (Dir before) baseUrl [] []) t
                 (getFileLink name (withTrailingSlash baseUrl)) \<longrightarrow>
               (titleOrCleanName fm name, getFileLink name (withTrailingSlash baseUrl))
                 \<in> leavesUnder tagGroup))"
proof (intro conjI)
  let ?l = "getFileLink name (withTrailingSlash baseUrl)"
  let ?fresh = "\<not> linkRecorded (scannedTags (Dir before) baseUrl [] []) t ?l"
  have mem: "(name, File (Some fm)) \<in> set es" using assms(1) by simp
  show "topLevelEntryItems lc baseUrl (name, File (Some fm)) = []"
    by (simp add: topLevelEntryItems_def)
  show "topLevelGroups lc (Dir es) baseUrl =
      topLevelGroups lc (Dir (filter (\<lambda>en. statSync (snd en) = Inr IsDirectory) es)) baseUrl"
    by (simp add: topLevelGroups_Dir concat_map_filter_Nil topLevelEntryItems_not_directory)
  show "siblingLinks (topLevelGroups lc (Dir es) baseUrl) = []"
    by (rule siblingLinks_topLevelGroups)
  have "\<exists>tagItems tagGroup.
      generateTagsSidebarGroup lc (Dir es) baseUrl = Inr (Some (Group ''Tags'' tagItems True)) \<and>
      tagGroup \<in> set tagItems \<and> itemText tagGroup = t \<and> ?l \<in> linksUnder tagGroup \<and>
      (?fresh \<longrightarrow> (titleOrCleanName fm name, ?l) \<in> leavesUnder tagGroup)"
  proof (cases ?fresh)
    case False
    from tag_group_holds_link [OF root_file_recorded [OF mem assms(2-4)], of lc]
    show ?thesis using False by blast
  next
    case True
    let ?p = "pageOf fm name (withTrailingSlash baseUrl) []"
    have "?p \<in> set (mapGet (scannedTags (Dir es) baseUrl [] []) t)"
      unfolding assms(1) by (rule root_file_page [OF assms(2-4) True])
    from tag_group_holds_leaf [OF this, of lc]
    have "\<exists>tagItems tagGroup.
        generateTagsSidebarGroup lc (Dir es) baseUrl = Inr (Some (Group ''Tags'' tagItems True)) \<and>
        tagGroup \<in> set tagItems \<and> itemText tagGroup = t \<and> ?l \<in> linksUnder tagGroup \<and>
        (titleOrCleanName fm name, ?l) \<in> leavesUnder tagGroup"
      by (simp add: pageOf_def)
    then show ?thesis by blast
  qed
  then obtain tagItems tagGroup where
    gen: "generateTagsSidebarGroup lc (Dir es) baseUrl = Inr (Some (Group ''Tags'' tagItems True))"
    and grp: "tagGroup \<in> set tagItems" "itemText tagGroup = t" "?l \<in> linksUnder tagGroup"
      "?fresh \<longrightarrow> (titleOrCleanName fm name, ?l) \<in> leavesUnder tagGroup"
    by blast
  have "generateSidebar lc (Dir es) baseUrl True =
      Inr [(''/'', topLevelGroups lc (Dir es) baseUrl @ [Group ''Tags'' tagItems True])]"
    by (simp add: generateSidebar_def gen)
  then show "\<exists>tagItems tagGroup.
      generateSidebar lc (Dir es) baseUrl True =
        Inr [(''/'', topLevelGroups lc (Dir es) baseUrl @ [Group ''Tags'' tagItems True])] \<and>
      tagGroup \<in> set tagItems \<and> itemText tagGroup = t \<and> ?l \<in> linksUnder tagGroup \<and>
      (?fresh \<longrightarrow> (titleOrCleanName fm name, ?l) \<in> leavesUnder tagGroup)"
    using grp by blast
qed

theorem C10_root_files_witness:
  "generateSidebar codeUnitCompare (Dir looseTree) ''/'' True =
     Inr [(''/'', [Group ''Guide'' [Leaf ''Setup'' ''/guide/setup''] True,
                  Group ''Tags'' [Group ''meta'' [Leaf ''About'' ''/about'',
                                                  Leaf ''Home'' ''/''] True,
                                  Group ''site'' [Leaf ''About'' ''/about''] True] True])] \<and>
   topLevelEntryItems codeUnitCompare ''/''
     (''about.md'', File (Some (taggedPage ''About'' ''meta, site''))) = [] \<and>
   (\<exists>tagItems tagGroup.
      generateSidebar codeUnitCompare (Dir looseTree) ''/'' True =
        Inr [(''/'', topLevelGroups codeUnitCompare (Dir looseTree) ''/''
                     @ [Group ''Tags'' tagItems True])] \<and>
      tagGroup \<in> set tagItems \<and> itemText tagGroup = ''meta'' \<and>
      getFileLink ''about.md'' (withTrailingSlash ''/'') \<in> linksUnder tagGroup \<and>
      (titleOrCleanName (taggedPage ''About'' ''meta, site'') ''about.md'',
       getFileLink ''about.md'' (withTrailingSlash ''/'')) \<in> leavesUnder tagGroup)"
proof -
  have a1: "looseTree =
      [(''index.md'', File (Some (taggedPage ''Home'' ''meta'')))]
        @ (''about.md'', File (Some (taggedPage ''About'' ''meta, site'')))
        # [(''guide'', Dir [(''setup.md'', File (Some plainPage))])]"
    by (simp add: looseTree_def)
  have a2: "\<not> startsWith ''about.md'' ''.''" by code_simp
  have a3: "endsWith (toLowerCase ''about.md'') ''.md''" by code_simp
  have "fileTagsOf (taggedPage ''About'' ''meta, site'') = [''meta'', ''site'']" by code_simp
  then have a4: "''meta'' \<in> set (fileTagsOf (taggedPage ''About'' ''meta, site''))" by simp
  have fresh: "\<not> linkRecorded
      (scannedTags (Dir [(''index.md'', File (Some (taggedPage ''Home'' ''meta'')))]) ''/'' [] [])
      ''meta'' (getFileLink ''about.md'' (withTrailingSlash ''/''))"
    by code_simp
  have run: "generateSidebar codeUnitCompare (Dir looseTree) ''/'' True =
     Inr [(''/'', [Group ''Guide'' [Leaf ''Setup'' ''/guide/setup''] True,
                  Group ''Tags'' [Group ''meta'' [Leaf ''About'' ''/about'',
                                                  Leaf ''Home'' ''/''] True,
                                  Group ''site'' [Leaf ''About'' ''/about''] True] True])]"
    by code_simp
  show ?thesis
    using C10_root_files [OF a1 a2 a3 a4, of codeUnitCompare "''/''"] fresh run by blast
qed

text \<open>
  Claim C10 as the specification states it fails for a file of the content root whose
  link another file has taken before it. \<^verbatim>\<open>index.md\<close> and \<^verbatim>\<open>readme.md\<close> of the content
  root both resolve to the link of the root and both declare the tag \<^verbatim>\<open>t\<close>; the scan
  records the first of them only, and the group \<^verbatim>\<open>t\<close> holds one leaf, with the display
  text of \<^verbatim>\<open>index.md\<close>. No leaf carries the display text of \<^verbatim>\<open>readme.md\<close>.
\<close>

theorem C10_same_link_counterexample:
  "generateSidebar codeUnitCompare (Dir twinTree) ''/'' True =
     Inr [(''/'', [Group ''Tags'' [Group ''t'' [Leaf ''Home'' ''/''] True] True])] \<and>
   fileTagsOf (taggedPage ''Read me'' ''t'') = [''t''] \<and>
   titleOrCleanName (taggedPage ''Read me'' ''t'') ''readme.md'' = ''Read me'' \<and>
   getFileLink ''readme.md'' (withTrailingSlash ''/'') = ''/'' \<and>
   (''Read me'', ''/'') \<notin> leavesUnder (Group ''t'' [Leaf ''Home'' ''/''] True)"
  by code_simp

end
